theory Spec2Isabelle
  imports Main "HOL-Library.Char_ord" "HOL-Library.List_Lexorder" "HOL-Library.Multiset"
begin

section \<open>Python values, strings and dictionaries\<close>

text \<open>
  Attribute values are typed \<open>Any\<close> in the source (\<open>Dict[str, Any]\<close>). The model keeps the
  scalar values the extraction stage produces: \<open>None\<close>, booleans, unbounded integers and
  strings. A string is a list of characters, and a character is one Unicode code point
  in the range U+0000 to U+00FF (\<open>of_char\<close> gives the code point); text with a code
  point beyond that range is outside the model. On this range the whitespace test
  and the lower-casing below are those of Python's \<open>str.strip()\<close> and \<open>str.lower()\<close>, and
  lower-casing stays inside the range. Upper-casing and title-casing are given on
  the ASCII letters, which is where the document-type values and the class names
  of the templates lie.
\<close>

datatype pyval = PNone | PBool bool | PInt int | PStr string

text \<open>Truthiness, as tested by \<open>if value:\<close>.\<close>

fun truthy :: "pyval \<Rightarrow> bool" where
  "truthy PNone = False"
| "truthy (PBool b) = b"
| "truthy (PInt i) = (i \<noteq> 0)"
| "truthy (PStr s) = (s \<noteq> [])"

definition digit_char :: "nat \<Rightarrow> char" where
  "digit_char n = ''0123456789'' ! (n mod 10)"

fun str_nat :: "nat \<Rightarrow> string" where
  "str_nat n = (if n < 10 then [digit_char n] else str_nat (n div 10) @ [digit_char n])"

declare str_nat.simps [simp del]

definition str_int :: "int \<Rightarrow> string" where
  "str_int i = (if i < 0 then CHR ''-'' # str_nat (nat (- i)) else str_nat (nat i))"

text \<open>\<open>str(value)\<close>.\<close>

fun py_str :: "pyval \<Rightarrow> string" where
  "py_str PNone = ''None''"
| "py_str (PBool b) = (if b then ''True'' else ''False'')"
| "py_str (PInt i) = str_int i"
| "py_str (PStr s) = s"

text \<open>\<open>sep.join(xs)\<close>.\<close>

fun py_join :: "string \<Rightarrow> string list \<Rightarrow> string" where
  "py_join sep [] = []"
| "py_join sep [x] = x"
| "py_join sep (x # y # ys) = x @ sep @ py_join sep (y # ys)"

text \<open>
  A dictionary keeps its keys in insertion order, and the source iterates over
  dictionaries, so a dictionary is an association list. Assigning to a key that is
  present replaces the value in place; assigning to a new key appends it.
\<close>

type_synonym ('k, 'v) pydict = "('k \<times> 'v) list"

definition dict_get :: "('k, 'v) pydict \<Rightarrow> 'k \<Rightarrow> 'v option" where
  "dict_get d k = map_of d k"

definition dict_keys :: "('k, 'v) pydict \<Rightarrow> 'k list" where
  "dict_keys d = map fst d"

fun dict_set :: "('k, 'v) pydict \<Rightarrow> 'k \<Rightarrow> 'v \<Rightarrow> ('k, 'v) pydict" where
  "dict_set [] k v = [(k, v)]"
| "dict_set ((k', v') # d) k v =
     (if k' = k then (k, v) # d else (k', v') # dict_set d k v)"

section \<open>Attribute merger (\<open>_merge_attributes\<close>)\<close>

type_synonym attr_map = "(string, pyval) pydict"

text \<open>
  The state of the first loop: \<open>merged\<close> and \<open>value_sets\<close>, a \<open>defaultdict(set)\<close> whose
  entry for a key is created, empty, the first time the key is looked up.
\<close>

type_synonym merge_state = "attr_map \<times> (string, string set) pydict"

definition merge_item :: "string \<times> pyval \<Rightarrow> merge_state \<Rightarrow> merge_state" where
  "merge_item kv st =
     (let key = fst kv; value = snd kv; merged = fst st; value_sets = snd st;
          merged' = (if key \<notin> set (dict_keys merged) then dict_set merged key value
                     else merged);
          value_sets' =
            (if truthy value
             then dict_set value_sets key
                    (insert (py_str value)
                       (case dict_get value_sets key of None \<Rightarrow> {} | Some s \<Rightarrow> s))
             else value_sets)
      in (merged', value_sets'))"

definition merge_loop :: "attr_map list \<Rightarrow> merge_state" where
  "merge_loop all_attributes =
     fold (\<lambda>attrs st. fold merge_item attrs st) all_attributes ([], [])"

definition add_variation :: "string \<times> string set \<Rightarrow> attr_map \<Rightarrow> attr_map" where
  "add_variation kvs merged =
     (let key = fst kvs; values = snd kvs
      in if card values > 1
         then dict_set merged (key @ ''_variations'')
                (PStr (py_join '', '' (sorted_list_of_set values)))
         else merged)"

definition merge_attributes :: "attr_map list \<Rightarrow> attr_map" where
  "merge_attributes all_attributes =
     (if all_attributes = [] then []
      else let st = merge_loop all_attributes
           in fold add_variation (snd st) (fst st))"

text \<open>
  The values written for one key by the entries of a list of items, as the source
  collects them: the \<open>str\<close> of every truthy value stored under that key.
\<close>

definition item_values :: "(string \<times> pyval) list \<Rightarrow> string \<Rightarrow> string set" where
  "item_values items k =
     set (map (\<lambda>kv. py_str (snd kv)) (filter (\<lambda>kv. fst kv = k \<and> truthy (snd kv)) items))"

definition value_set :: "attr_map list \<Rightarrow> string \<Rightarrow> string set" where
  "value_set all_attributes k = item_values (concat all_attributes) k"

section \<open>Entities and deduplication (\<open>_deduplicate_extractions\<close>)\<close>

text \<open>
  The \<open>attributes\<close> field of an extraction is a dictionary or some other value
  (\<open>None\<close>, or any value that is not a mapping).
\<close>

datatype attrs = ADict attr_map | ANonDict pyval

record extraction =
  extraction_class :: string
  extraction_text :: string
  attributes :: attrs

text \<open>
  The characters that \<open>str.strip()\<close> removes are those for which \<open>str.isspace()\<close> holds:
  U+0009 to U+000D, U+001C to U+001F, the space U+0020, the next-line character
  U+0085 and the no-break space U+00A0.
\<close>

definition py_isspace :: "char \<Rightarrow> bool" where
  "py_isspace c \<longleftrightarrow>
     (let n = of_char c :: nat
      in (9 \<le> n \<and> n \<le> 13) \<or> (28 \<le> n \<and> n \<le> 32) \<or> n = 133 \<or> n = 160)"

definition py_strip :: "string \<Rightarrow> string" where
  "py_strip s = rev (dropWhile py_isspace (rev (dropWhile py_isspace s)))"

text \<open>
  \<open>str.lower()\<close>, character by character: the upper-case letters of the range are
  \<open>A\<close> to \<open>Z\<close> (U+0041 to U+005A) and U+00C0 to U+00DE without the multiplication sign
  U+00D7; each has its lower-case letter 32 code points higher. Every other
  character of the range, the sharp s U+00DF among them, is left as it is.
\<close>

definition lower_char :: "char \<Rightarrow> char" where
  "lower_char c =
     (let n = of_char c :: nat
      in if (65 \<le> n \<and> n \<le> 90) \<or> (192 \<le> n \<and> n \<le> 222 \<and> n \<noteq> 215)
         then char_of (n + 32)
         else c)"

text \<open>Upper-casing of the ASCII letters.\<close>

definition upper_char :: "char \<Rightarrow> char" where
  "upper_char c =
     (case map_of (zip ''abcdefghijklmnopqrstuvwxyz'' ''ABCDEFGHIJKLMNOPQRSTUVWXYZ'') c of
        Some u \<Rightarrow> u | None \<Rightarrow> c)"

definition py_lower :: "string \<Rightarrow> string" where
  "py_lower s = map lower_char s"

definition py_upper :: "string \<Rightarrow> string" where
  "py_upper s = map upper_char s"

text \<open>The grouping key: \<open>(extraction_class, extraction_text.strip().lower())\<close>.\<close>

definition key_of :: "extraction \<Rightarrow> string \<times> string" where
  "key_of e = (extraction_class e, py_lower (py_strip (extraction_text e)))"

text \<open>
  One entry of \<open>grouped\<close>. The source creates the entry with \<open>'extraction': None\<close> on
  the first lookup of a key and fills it in the same iteration; the model creates it
  with the extraction that caused the lookup.
\<close>

record group =
  grp_extraction :: extraction
  grp_count :: nat
  grp_all_attributes :: "attr_map list"

definition attrs_truthy :: "attrs \<Rightarrow> bool" where
  "attrs_truthy a = (case a of ADict d \<Rightarrow> d \<noteq> [] | ANonDict v \<Rightarrow> truthy v)"

definition group_step :: "extraction \<Rightarrow> (string \<times> string, group) pydict
    \<Rightarrow> (string \<times> string, group) pydict" where
  "group_step e grouped =
     (let key = key_of e;
          g = (case dict_get grouped key of
                 None \<Rightarrow> \<lparr>grp_extraction = e, grp_count = 0, grp_all_attributes = []\<rparr>
               | Some g \<Rightarrow> g);
          g1 = g\<lparr>grp_count := grp_count g + 1\<rparr>;
          g2 = (case attributes e of
                  ADict d \<Rightarrow>
                    if attrs_truthy (attributes e)
                    then g1\<lparr>grp_all_attributes := grp_all_attributes g1 @ [d]\<rparr>
                    else g1
                | ANonDict v \<Rightarrow> g1)
      in dict_set grouped key g2)"

definition group_extractions :: "extraction list \<Rightarrow> (string \<times> string, group) pydict" where
  "group_extractions extractions = fold group_step extractions []"

definition build_merged :: "(string \<times> string) \<times> group \<Rightarrow> extraction" where
  "build_merged kg =
     (let data = snd kg;
          extraction = grp_extraction data;
          count = grp_count data;
          merged_attrs = merge_attributes (grp_all_attributes data);
          merged_attrs' = (if count > 1
                           then dict_set merged_attrs ''mention_count'' (PInt (int count))
                           else merged_attrs)
      in extraction\<lparr>attributes := ADict (if merged_attrs' \<noteq> [] then merged_attrs' else [])\<rparr>)"

definition deduplicate_extractions :: "extraction list \<Rightarrow> extraction list" where
  "deduplicate_extractions extractions = map build_merged (group_extractions extractions)"

text \<open>
  The keys of a list in the order of their first occurrence, and the attribute maps
  an extraction contributes to its group: these two state what the grouping is meant
  to compute.
\<close>

fun first_seen :: "'a list \<Rightarrow> 'a list" where
  "first_seen [] = []"
| "first_seen (x # xs) = x # removeAll x (first_seen xs)"

definition contributed :: "extraction \<Rightarrow> attr_map list" where
  "contributed e = (case attributes e of ADict d \<Rightarrow> if d = [] then [] else [d]
                    | ANonDict v \<Rightarrow> [])"

definition members :: "string \<times> string \<Rightarrow> extraction list \<Rightarrow> extraction list" where
  "members k extractions = filter (\<lambda>e. key_of e = k) extractions"

definition expected_group :: "string \<times> string \<Rightarrow> extraction list \<Rightarrow> group option" where
  "expected_group k extractions =
     (case members k extractions of
        [] \<Rightarrow> None
      | e # es \<Rightarrow>
          Some \<lparr>grp_extraction = e, grp_count = length (e # es),
                grp_all_attributes = concat (map contributed (e # es))\<rparr>)"

text \<open>
  Unicode case folding (\<open>str.casefold()\<close>), which is not what the source applies, for
  comparison with it. On the range of a character it is lower-casing, except that the
  sharp s U+00DF folds to \<open>ss\<close> and the micro sign U+00B5 folds to U+03BC, which lies
  outside the range: a text with a micro sign has no folding here.
\<close>

definition case_fold :: "string \<Rightarrow> string option" where
  "case_fold s =
     (if CHR 0xB5 \<in> set s then None
      else Some (concat (map (\<lambda>c. if c = CHR 0xDF then ''ss'' else [lower_char c]) s)))"

definition raw_attr :: "extraction \<Rightarrow> string \<Rightarrow> pyval option" where
  "raw_attr e k = (case attributes e of ADict d \<Rightarrow> dict_get d k | ANonDict v \<Rightarrow> None)"

section \<open>Truncation of long documents (\<open>extract_insights\<close>, \<open>_chunk_and_extract\<close>)\<close>

text \<open>
  \<open>s.rfind(c)\<close> for a single character: the highest index of \<open>c\<close>, or \<open>-1\<close>. The
  second argument of \<open>_chunk_and_extract\<close>, the template, is not used by it and is left
  out.
\<close>

fun rfind_from :: "char \<Rightarrow> string \<Rightarrow> int \<Rightarrow> int \<Rightarrow> int" where
  "rfind_from c [] i best = best"
| "rfind_from c (x # xs) i best = rfind_from c xs (i + 1) (if x = c then i else best)"

definition py_rfind :: "string \<Rightarrow> char \<Rightarrow> int" where
  "py_rfind s c = rfind_from c s 0 (- 1)"

definition chunk_and_extract :: "string \<Rightarrow> string" where
  "chunk_and_extract text =
     (let chunk_size = 4000 :: nat
      in if length text > chunk_size
         then (let last_space = py_rfind (take chunk_size text) CHR '' ''
               in if last_space > int chunk_size - 200
                  then take (nat last_space) text
                  else take chunk_size text)
         else text)"

text \<open>The text that \<open>extract_insights\<close> hands to the extraction call.\<close>

definition extract_insights_text :: "string \<Rightarrow> string" where
  "extract_insights_text text = (if length text > 8000 then chunk_and_extract text else text)"

section \<open>Document types and the template registry (\<open>get_template\<close>)\<close>

datatype DocumentType = STORY | MEETING | RESEARCH | TECHNICAL | LEGAL | GENERAL

text \<open>
  \<open>DocumentType\<close> is a string enumeration: a member compares and hashes as its value,
  so a dictionary keyed by the members is keyed by these strings, and a lookup may be
  given any tag.
\<close>

fun doc_value :: "DocumentType \<Rightarrow> string" where
  "doc_value STORY = ''story''"
| "doc_value MEETING = ''meeting''"
| "doc_value RESEARCH = ''research''"
| "doc_value TECHNICAL = ''technical''"
| "doc_value LEGAL = ''legal''"
| "doc_value GENERAL = ''general''"











section \<open>Category order (\<open>_get_category_order\<close>)\<close>

definition orders :: "(string, (string, nat) pydict) pydict" where
  "orders =
     [(doc_value STORY,
         [(''character'', 1), (''plot_point'', 2), (''theme'', 3), (''setting'', 4),
          (''moral'', 5)]),
      (doc_value MEETING,
         [(''speaker'', 1), (''decision'', 2), (''action_item'', 3), (''agenda_item'', 4),
          (''discussion_point'', 5)]),
      (doc_value RESEARCH,
         [(''author'', 1), (''research_question'', 2), (''finding'', 3),
          (''methodology'', 4), (''conclusion'', 5), (''citation'', 6)]),
      (doc_value TECHNICAL,
         [(''component'', 1), (''function'', 2), (''parameter'', 3),
          (''configuration'', 4), (''dependency'', 5), (''example'', 6)]),
      (doc_value LEGAL,
         [(''party'', 1), (''obligation'', 2), (''clause'', 3), (''deadline'', 4),
          (''term'', 5), (''penalty'', 6)]),
      (doc_value GENERAL,
         [(''entity'', 1), (''key_point'', 2), (''topic'', 3), (''statement'', 4),
          (''date'', 5)])]"

text \<open>\<open>orders.get(doc_type, {})\<close>.\<close>

definition get_category_order :: "string \<Rightarrow> (string, nat) pydict" where
  "get_category_order doc_type =
     (case dict_get orders doc_type of Some order \<Rightarrow> order | None \<Rightarrow> [])"

section \<open>Report content (\<open>generate_pdf_report\<close> and its helpers)\<close>

datatype py_error = TypeError | AttributeError

text \<open>Grouping by class, in the order in which the classes are first met.\<close>

definition class_step :: "extraction \<Rightarrow> (string, extraction list) pydict
    \<Rightarrow> (string, extraction list) pydict" where
  "class_step e grouped =
     (let cls = extraction_class e
      in dict_set grouped cls
           ((case dict_get grouped cls of None \<Rightarrow> [] | Some items \<Rightarrow> items) @ [e]))"

definition group_by_class :: "extraction list \<Rightarrow> (string, extraction list) pydict" where
  "group_by_class extractions = fold class_step extractions []"

text \<open>
  The sort key \<open>(x.attributes or {}).get('mention_count', 1)\<close>. A falsy \<open>attributes\<close>
  is replaced by the empty dictionary; a truthy one that is not a dictionary has no
  \<open>get\<close>.
\<close>

definition mention_count_key :: "extraction \<Rightarrow> py_error + pyval" where
  "mention_count_key x =
     (case attributes x of
        ADict d \<Rightarrow> Inr (case dict_get d ''mention_count'' of None \<Rightarrow> PInt 1 | Some v \<Rightarrow> v)
      | ANonDict v \<Rightarrow> if truthy v then Inl AttributeError else Inr (PInt 1))"

fun sequence_err :: "(py_error + 'a) list \<Rightarrow> py_error + 'a list" where
  "sequence_err [] = Inr []"
| "sequence_err (x # xs) =
     (case x of
        Inl e \<Rightarrow> Inl e
      | Inr v \<Rightarrow> (case sequence_err xs of Inl e \<Rightarrow> Inl e | Inr vs \<Rightarrow> Inr (v # vs)))"

text \<open>
  Ordering of key values. Integers and booleans compare as numbers and strings compare
  lexicographically; any other pair of values raises \<open>TypeError\<close>.
\<close>

definition is_num :: "pyval \<Rightarrow> bool" where
  "is_num v = (case v of PInt i \<Rightarrow> True | PBool b \<Rightarrow> True | _ \<Rightarrow> False)"

definition num_of :: "pyval \<Rightarrow> int" where
  "num_of v = (case v of PInt i \<Rightarrow> i | PBool b \<Rightarrow> (if b then 1 else 0) | _ \<Rightarrow> 0)"

definition is_str :: "pyval \<Rightarrow> bool" where
  "is_str v = (case v of PStr s \<Rightarrow> True | _ \<Rightarrow> False)"

definition str_of :: "pyval \<Rightarrow> string" where
  "str_of v = (case v of PStr s \<Rightarrow> s | _ \<Rightarrow> [])"

text \<open>
  \<open>sorted(items, key=..., reverse=True)\<close> on items paired with their keys. The sort is
  stable, and with \<open>reverse=True\<close> it is the stable ascending sort of the reversed
  list, reversed again, so equal keys keep their original order. A list of fewer than
  two items is never compared. A longer list is sorted when its keys are all numbers
  or all strings; otherwise some comparison meets two values that do not compare.
\<close>

definition sorted_reverse :: "(pyval \<times> 'a) list \<Rightarrow> py_error + 'a list" where
  "sorted_reverse kxs =
     (if length kxs \<le> 1 then Inr (map snd kxs)
      else if list_all (\<lambda>kx. is_num (fst kx)) kxs
      then Inr (map snd (rev (sort_key (\<lambda>kx. num_of (fst kx)) (rev kxs))))
      else if list_all (\<lambda>kx. is_str (fst kx)) kxs
      then Inr (map snd (rev (sort_key (\<lambda>kx. str_of (fst kx)) (rev kxs))))
      else Inl TypeError)"

definition sort_by_mention_count :: "extraction list \<Rightarrow> py_error + extraction list" where
  "sort_by_mention_count items =
     (case sequence_err (map mention_count_key items) of
        Inl e \<Rightarrow> Inl e
      | Inr keys \<Rightarrow> sorted_reverse (zip keys items))"

text \<open>\<open>category_order.get(cls, 999)\<close>.\<close>

definition rank_of :: "(string, nat) pydict \<Rightarrow> string \<Rightarrow> nat" where
  "rank_of category_order cls =
     (case dict_get category_order cls of None \<Rightarrow> 999 | Some r \<Rightarrow> r)"

definition sorted_categories :: "string \<Rightarrow> (string, extraction list) pydict
    \<Rightarrow> (string, extraction list) pydict" where
  "sorted_categories doc_type grouped =
     (let category_order = get_category_order doc_type
      in sort_key (\<lambda>x. rank_of category_order (fst x)) grouped)"

text \<open>
  The detailed listing: the classes in sorted order, each with its items sorted by
  mention count. The first error ends the report.
\<close>

definition detailed_section :: "string \<times> extraction list
    \<Rightarrow> py_error + string \<times> extraction list" where
  "detailed_section ci =
     (case sort_by_mention_count (snd ci) of
        Inl e \<Rightarrow> Inl e
      | Inr sorted_items \<Rightarrow> Inr (fst ci, sorted_items))"

definition detailed_sections :: "string \<Rightarrow> extraction list
    \<Rightarrow> py_error + (string \<times> extraction list) list" where
  "detailed_sections doc_type extractions =
     sequence_err
       (map detailed_section (sorted_categories doc_type (group_by_class extractions)))"

text \<open>
  The mention count that the listing is meant to sort by: the integer stored under
  \<open>mention_count\<close>, and \<open>1\<close> for an entity without one. The second predicate says that
  an entity has no other kind of value there.
\<close>

definition mention_count_of :: "extraction \<Rightarrow> int" where
  "mention_count_of e = (case raw_attr e ''mention_count'' of Some (PInt n) \<Rightarrow> n | _ \<Rightarrow> 1)"

definition int_mention_count :: "extraction \<Rightarrow> bool" where
  "int_mention_count e =
     (case attributes e of
        ADict d \<Rightarrow> (case dict_get d ''mention_count'' of
                     None \<Rightarrow> True
                   | Some v \<Rightarrow> (case v of PInt n \<Rightarrow> True | _ \<Rightarrow> False))
      | ANonDict v \<Rightarrow> \<not> truthy v)"

text \<open>\<open>cls.replace('_', ' ').title()\<close>.\<close>

definition is_cased :: "char \<Rightarrow> bool" where
  "is_cased c \<longleftrightarrow>
     c \<in> set (''ABCDEFGHIJKLMNOPQRSTUVWXYZ'' @ ''abcdefghijklmnopqrstuvwxyz'')"

fun title_from :: "bool \<Rightarrow> string \<Rightarrow> string" where
  "title_from prev [] = []"
| "title_from prev (c # cs) =
     (if is_cased c
      then (if prev then lower_char c else upper_char c) # title_from True cs
      else c # title_from False cs)"

definition display_name :: "string \<Rightarrow> string" where
  "display_name cls = title_from False (map (\<lambda>c. if c = CHR ''_'' then CHR '' '' else c) cls)"

definition key_insight :: "string \<times> extraction list \<Rightarrow> (py_error + string) list" where
  "key_insight ci =
     (let cls = fst ci; items = snd ci
      in if items = [] then []
         else [case sort_by_mention_count items of
                 Inl e \<Rightarrow> Inl e
               | Inr sorted_items \<Rightarrow>
                   (let top_items = take 3 sorted_items
                    in if length items = 1
                       then Inr (display_name cls @ '': '' @ extraction_text (hd items))
                       else if length items \<le> 3
                       then Inr (display_name cls @ '': ''
                                 @ py_join '', '' (map extraction_text items))
                       else Inr (display_name cls @ '' ('' @ str_nat (length items)
                                 @ '' total): ''
                                 @ py_join '', '' (map extraction_text top_items)
                                 @ '', and others''))])"

definition generate_key_insights :: "(string, extraction list) pydict
    \<Rightarrow> py_error + string list" where
  "generate_key_insights grouped = sequence_err (concat (map key_insight grouped))"

text \<open>
  \<open>_generate_executive_summary\<close>. The confidence is a float that is only formatted
  (\<open>{confidence:.0%}\<close>); the formatting is a parameter.
\<close>

record 'c ClassificationResult =
  document_type :: DocumentType
  confidence :: 'c
  reasoning :: string

definition count_class :: "(string, extraction list) pydict \<Rightarrow> string \<Rightarrow> nat" where
  "count_class grouped cls =
     length (case dict_get grouped cls of None \<Rightarrow> [] | Some items \<Rightarrow> items)"

definition type_paragraph :: "DocumentType \<Rightarrow> (string, extraction list) pydict
    \<Rightarrow> extraction list \<Rightarrow> string" where
  "type_paragraph doc_type grouped extractions =
     (case doc_type of
        STORY \<Rightarrow>
          ''The narrative features '' @ str_nat (count_class grouped ''character'')
          @ '' main character(s) and explores '' @ str_nat (count_class grouped ''theme'')
          @ '' central theme(s). ''
          @ ''The story presents a compelling narrative with well-defined characters and meaningful themes.''
      | MEETING \<Rightarrow>
          ''The meeting involved '' @ str_nat (count_class grouped ''speaker'')
          @ '' participant(s) and resulted in '' @ str_nat (count_class grouped ''decision'')
          @ '' key decision(s) ''
          @ ''with '' @ str_nat (count_class grouped ''action_item'')
          @ '' action item(s) identified for follow-up.''
      | RESEARCH \<Rightarrow>
          ''This research paper presents '' @ str_nat (count_class grouped ''finding'')
          @ '' significant finding(s). ''
          @ ''The study employs rigorous methodology and contributes valuable insights to the field.''
      | TECHNICAL \<Rightarrow>
          ''The technical documentation covers '' @ str_nat (count_class grouped ''component'')
          @ '' component(s) and '' @ str_nat (count_class grouped ''function'')
          @ '' function(s), ''
          @ ''providing comprehensive guidance for implementation and usage.''
      | LEGAL \<Rightarrow>
          ''This legal document involves '' @ str_nat (count_class grouped ''party'')
          @ '' party/parties with '' @ str_nat (count_class grouped ''obligation'')
          @ '' defined obligation(s). ''
          @ ''The document establishes clear terms and responsibilities for all parties involved.''
      | GENERAL \<Rightarrow>
          ''The document contains '' @ str_nat (length extractions)
          @ '' key entities and insights. ''
          @ ''Analysis reveals important information across multiple categories.'')"

definition generate_executive_summary :: "('c \<Rightarrow> string) \<Rightarrow> extraction list \<Rightarrow> DocumentType
    \<Rightarrow> 'c ClassificationResult \<Rightarrow> string list" where
  "generate_executive_summary fmt_percent extractions doc_type classification =
     (let grouped = group_by_class extractions
      in [''This document has been classified as a <b>'' @ py_upper (doc_value doc_type)
          @ ''</b> '' @ ''with '' @ fmt_percent (confidence classification)
          @ '' confidence. '' @ reasoning classification,
          type_paragraph doc_type grouped extractions,
          ''In total, '' @ str_nat (length extractions)
          @ '' unique entities were identified across '' @ str_nat (length grouped)
          @ '' categories, ''
          @ ''providing a comprehensive understanding of the document'' @ [CHR 0x27]
          @ ''s content and context.''])"

text \<open>
  \<open>_generate_summary\<close> of the analyze route. The bullet literal of the source holds a
  character beyond U+00FF; it is only concatenated, never inspected, and is given
  here by the UTF-8 bytes of the literal.
\<close>

definition summary_bullet :: string where
  "summary_bullet = [CHR 0xC3, CHR 0xA2, CHR 0xE2, CHR 0x82, CHR 0xAC, CHR 0xC2, CHR 0xA2]"

definition count_step :: "extraction \<Rightarrow> (string, nat) pydict \<Rightarrow> (string, nat) pydict" where
  "count_step e count_by_class =
     (let cls = extraction_class e
      in dict_set count_by_class cls
           ((case dict_get count_by_class cls of None \<Rightarrow> 0 | Some n \<Rightarrow> n) + 1))"

definition generate_summary :: "extraction list \<Rightarrow> DocumentType \<Rightarrow> string" where
  "generate_summary extractions doc_type =
     (if extractions = [] then ''No significant insights extracted from the document.''
      else let count_by_class = fold count_step extractions []
           in py_join '' ''
                ([''Analyzed as '' @ py_upper (doc_value doc_type) @ '' document.'',
                  ''Extracted '' @ str_nat (length extractions) @ '' entities:'']
                 @ map (\<lambda>cc. summary_bullet @ '' '' @ str_nat (snd cc) @ '' '' @ fst cc @ ''(s)'')
                     count_by_class))"

section \<open>Dictionaries\<close>

lemma map_of_dict_set: "map_of (dict_set d k v) = (map_of d)(k \<mapsto> v)"
  by (induction d k v rule: dict_set.induct) (auto simp: fun_eq_iff)

lemma keys_dict_set:
  "map fst (dict_set d k v) = (if k \<in> fst ` set d then map fst d else map fst d @ [k])"
  by (induction d k v rule: dict_set.induct) auto

lemma key_set_dict_set: "fst ` set (dict_set d k v) = insert k (fst ` set d)"
  by (induction d k v rule: dict_set.induct) auto

lemma dict_set_new: "k \<notin> fst ` set d \<Longrightarrow> dict_set d k v = d @ [(k, v)]"
  by (induction d k v rule: dict_set.induct) auto

lemma distinct_dict_set: "distinct (map fst d) \<Longrightarrow> distinct (map fst (dict_set d k v))"
  by (simp add: keys_dict_set)

lemma dict_set_not_Nil: "dict_set d k v \<noteq> []"
  by (induction d k v rule: dict_set.induct) (auto split: if_splits)

lemma fold_fold_concat: "fold (\<lambda>xs. fold f xs) xss s = fold f (concat xss) s"
  by (induction xss arbitrary: s) auto

section \<open>The attribute merger\<close>

lemma merge_loop_concat:
  "merge_loop all_attributes = fold merge_item (concat all_attributes) ([], [])"
  by (simp add: merge_loop_def fold_fold_concat)

lemma merge_item_pair:
  "merge_item (k, v) (m, vs) =
     (if k \<notin> fst ` set m then dict_set m k v else m,
      if truthy v
      then dict_set vs k (insert (py_str v) (case map_of vs k of None \<Rightarrow> {} | Some s \<Rightarrow> s))
      else vs)"
  by (simp add: merge_item_def Let_def dict_keys_def dict_get_def)

text \<open>After the first loop, \<open>merged\<close> maps a key to the first value stored under it.\<close>

lemma fst_fold_merge_item_map_of:
  "map_of (fst (fold merge_item items (m, vs))) = map_of (m @ items)"
proof (induction items arbitrary: m vs)
  case Nil
  then show ?case by simp
next
  case (Cons kv items)
  obtain k v where kv: "kv = (k, v)" by (cases kv)
  show ?case
  proof (cases "k \<in> fst ` set m")
    case True
    then obtain y where y: "map_of m k = Some y"
      by (metis map_of_eq_None_iff not_Some_eq)
    have "map_of (m @ items) x = map_of (m @ (k, v) # items) x" for x
      using y by (simp add: map_add_def split: option.splits)
    then show ?thesis using True
      by (simp add: kv merge_item_pair Cons.IH fun_eq_iff del: map_of_append)
  next
    case False
    then show ?thesis
      by (simp add: kv merge_item_pair Cons.IH dict_set_new)
  qed
qed

lemma fst_fold_merge_item_distinct:
  "distinct (map fst m) \<Longrightarrow> distinct (map fst (fst (fold merge_item items (m, vs))))"
proof (induction items arbitrary: m vs)
  case Nil
  then show ?case by simp
next
  case (Cons kv items)
  obtain k v where kv: "kv = (k, v)" by (cases kv)
  show ?case using Cons.prems
    by (auto simp add: kv merge_item_pair distinct_dict_set intro!: Cons.IH)
qed


lemma snd_fold_merge_item_distinct:
  "distinct (map fst vs) \<Longrightarrow> distinct (map fst (snd (fold merge_item items (m, vs))))"
proof (induction items arbitrary: m vs)
  case Nil
  then show ?case by simp
next
  case (Cons kv items)
  obtain k v where kv: "kv = (k, v)" by (cases kv)
  show ?case using Cons.prems
    by (auto simp add: kv merge_item_pair distinct_dict_set intro!: Cons.IH)
qed

text \<open>After the first loop, \<open>value_sets\<close> holds for each key the values collected for it.\<close>

lemma snd_fold_merge_item_map_of:
  "map_of (snd (fold merge_item items (m, vs))) k =
     (if item_values items k = {} then map_of vs k
      else Some (item_values items k \<union> (case map_of vs k of None \<Rightarrow> {} | Some s \<Rightarrow> s)))"
proof (induction items arbitrary: m vs)
  case Nil
  then show ?case by (simp add: item_values_def)
next
  case (Cons kv items)
  obtain k' v where kv: "kv = (k', v)" by (cases kv)
  show ?case
    apply (simp add: kv merge_item_pair Cons.IH map_of_dict_set)
    apply (auto simp: item_values_def split: option.splits)
    done
qed

lemma add_variation_pair:
  "add_variation (k, s) m =
     (if card s > 1
      then dict_set m (k @ ''_variations'') (PStr (py_join '', '' (sorted_list_of_set s)))
      else m)"
  by (simp add: add_variation_def Let_def)

lemma fold_add_variation_map_of:
  "distinct (map fst vs) \<Longrightarrow>
   map_of (fold add_variation vs m) (k @ ''_variations'') =
     (case map_of vs k of
        None \<Rightarrow> map_of m (k @ ''_variations'')
      | Some s \<Rightarrow> if card s > 1 then Some (PStr (py_join '', '' (sorted_list_of_set s)))
                  else map_of m (k @ ''_variations''))"
proof (induction vs arbitrary: m)
  case Nil
  then show ?case by simp
next
  case (Cons ks vs)
  obtain k' s where ks: "ks = (k', s)" by (cases ks)
  from Cons.prems have d: "distinct (map fst vs)" and nk: "k' \<notin> fst ` set vs"
    by (auto simp: ks)
  from nk have none: "map_of vs k' = None" by (simp add: map_of_eq_None_iff)
  show ?case
    by (auto simp: ks add_variation_pair Cons.IH [OF d] map_of_dict_set none split: option.splits)
qed

lemma fold_add_variation_other:
  "\<forall>k. k' \<noteq> k @ ''_variations'' \<Longrightarrow> map_of (fold add_variation vs m) k' = map_of m k'"
proof (induction vs arbitrary: m)
  case Nil
  then show ?case by simp
next
  case (Cons ks vs)
  obtain k s where ks: "ks = (k, s)" by (cases ks)
  show ?case using Cons.prems
    by (simp add: ks add_variation_pair Cons.IH map_of_dict_set)
qed

lemma fold_add_variation_distinct:
  "distinct (map fst m) \<Longrightarrow> distinct (map fst (fold add_variation vs m))"
proof (induction vs arbitrary: m)
  case Nil
  then show ?case by simp
next
  case (Cons ks vs)
  obtain k s where ks: "ks = (k, s)" by (cases ks)
  show ?case using Cons.prems
    by (auto simp: ks add_variation_pair distinct_dict_set intro!: Cons.IH)
qed


lemma finite_item_values: "finite (item_values items k)"
  by (simp add: item_values_def)

lemma merge_attributes_distinct: "distinct (map fst (merge_attributes all_attributes))"
  by (simp add: merge_attributes_def Let_def merge_loop_concat
      fold_add_variation_distinct fst_fold_merge_item_distinct)

text \<open>What the merged dictionary holds under a companion key.\<close>

lemma merge_attributes_variations_key:
  "dict_get (merge_attributes all_attributes) (k @ ''_variations'') =
     (if card (value_set all_attributes k) > 1
      then Some (PStr (py_join '', '' (sorted_list_of_set (value_set all_attributes k))))
      else map_of (concat all_attributes) (k @ ''_variations''))"
proof (cases "all_attributes = []")
  case True
  then show ?thesis
    by (simp add: merge_attributes_def dict_get_def value_set_def item_values_def)
next
  case False
  let ?items = "concat all_attributes"
  let ?st = "fold merge_item ?items ([], [])"
  have d: "distinct (map fst (snd ?st))"
    by (rule snd_fold_merge_item_distinct) simp
  have vs: "map_of (snd ?st) k =
      (if item_values ?items k = {} then None else Some (item_values ?items k))"
    by (simp add: snd_fold_merge_item_map_of)
  have m: "map_of (fst ?st) = map_of ?items"
    by (simp add: fst_fold_merge_item_map_of)
  show ?thesis using False
    by (simp add: merge_attributes_def Let_def merge_loop_concat dict_get_def
        fold_add_variation_map_of [OF d] vs m value_set_def)
qed

text \<open>Every other key keeps the first value stored under it.\<close>

lemma merge_attributes_plain_key:
  "\<forall>k. k' \<noteq> k @ ''_variations'' \<Longrightarrow>
   dict_get (merge_attributes all_attributes) k' = map_of (concat all_attributes) k'"
  by (simp add: merge_attributes_def Let_def merge_loop_concat dict_get_def
      fold_add_variation_other fst_fold_merge_item_map_of)

lemma value_set_mset:
  assumes "mset bs = mset as"
  shows "value_set bs k = value_set as k"
proof -
  from assms have "set bs = set as" by (rule mset_eq_setD)
  then have "set (concat bs) = set (concat as)" by simp
  then show ?thesis
    by (simp add: value_set_def item_values_def)
qed



section \<open>Grouping\<close>

lemma set_first_seen: "set (first_seen xs) = set xs"
  by (induction xs) auto

lemma distinct_first_seen: "distinct (first_seen xs)"
  by (induction xs) (auto simp: distinct_removeAll)


lemma length_first_seen: "length (first_seen xs) = card (set xs)"
  using distinct_card [OF distinct_first_seen, of xs] by (simp add: set_first_seen)

lemma filter_removeAll_in:
  "x \<in> S \<Longrightarrow> filter (\<lambda>k. k \<notin> S) (removeAll x ys) = filter (\<lambda>k. k \<notin> S) ys"
  by (induction ys) auto

lemma filter_insert_removeAll:
  "filter (\<lambda>k. k \<noteq> x \<and> k \<notin> S) ys = filter (\<lambda>k. k \<notin> S) (removeAll x ys)"
  by (induction ys) auto

lemma key_set_group_step: "fst ` set (group_step e grouped) = insert (key_of e) (fst ` set grouped)"
  by (simp add: group_step_def Let_def key_set_dict_set)

lemma map_of_group_step:
  "map_of (group_step e grouped) =
     (map_of grouped)(key_of e \<mapsto>
        (let g = (case map_of grouped (key_of e) of
                    None \<Rightarrow> \<lparr>grp_extraction = e, grp_count = 0, grp_all_attributes = []\<rparr>
                  | Some g \<Rightarrow> g)
         in g\<lparr>grp_count := grp_count g + 1,
              grp_all_attributes := grp_all_attributes g @ contributed e\<rparr>))"
  by (cases "attributes e")
    (simp_all add: group_step_def Let_def map_of_dict_set dict_get_def contributed_def
      attrs_truthy_def)

lemma keys_group_step:
  "map fst (group_step e grouped) =
     (if key_of e \<in> fst ` set grouped then map fst grouped else map fst grouped @ [key_of e])"
  by (simp add: group_step_def Let_def keys_dict_set)

lemma keys_fold_group_step:
  "map fst (fold group_step xs grouped) =
     map fst grouped @ filter (\<lambda>k. k \<notin> fst ` set grouped) (first_seen (map key_of xs))"
proof (induction xs arbitrary: grouped)
  case Nil
  then show ?case by simp
next
  case (Cons x xs)
  show ?case
  proof (cases "key_of x \<in> fst ` set grouped")
    case True
    then have same: "insert (key_of x) (fst ` set grouped) = fst ` set grouped"
      by (rule insert_absorb)
    show ?thesis using True
      by (simp add: Cons.IH key_set_group_step same keys_group_step filter_removeAll_in)
  next
    case False
    then show ?thesis
      by (simp add: Cons.IH key_set_group_step keys_group_step filter_insert_removeAll)
  qed
qed

lemma map_of_fold_group_step:
  "map_of (fold group_step xs grouped) k =
     (case map_of grouped k of
        None \<Rightarrow> expected_group k xs
      | Some g \<Rightarrow>
          Some (g\<lparr>grp_count := grp_count g + length (members k xs),
                  grp_all_attributes :=
                    grp_all_attributes g @ concat (map contributed (members k xs))\<rparr>))"
proof (induction xs arbitrary: grouped)
  case Nil
  then show ?case
    by (simp add: expected_group_def members_def split: option.splits)
next
  case (Cons x xs)
  show ?case
  proof (cases "key_of x = k")
    case True
    then show ?thesis
      by (simp add: Cons.IH map_of_group_step expected_group_def members_def Let_def
          split: option.splits list.splits)
  next
    case False
    then show ?thesis
      by (simp add: Cons.IH map_of_group_step expected_group_def members_def
          split: option.splits)
  qed
qed

lemma alist_by_keys:
  assumes "distinct (map fst d)"
  shows "map (\<lambda>k. (k, the (map_of d k))) (map fst d) = d"
proof -
  have "(fst kv, the (map_of d (fst kv))) = kv" if "kv \<in> set d" for kv
  proof -
    obtain k v where kv: "kv = (k, v)" by (cases kv)
    from that assms have "map_of d k = Some v" by (simp add: kv)
    then show ?thesis by (simp add: kv)
  qed
  then show ?thesis
    by (simp add: o_def map_idI)
qed

lemma distinct_keys_group_extractions: "distinct (map fst (group_extractions xs))"
  by (simp add: group_extractions_def keys_fold_group_step distinct_first_seen)

text \<open>The first loop, in closed form.\<close>

lemma group_extractions_eq:
  "group_extractions xs =
     map (\<lambda>k. (k, the (expected_group k xs))) (first_seen (map key_of xs))"
proof -
  have keys: "map fst (group_extractions xs) = first_seen (map key_of xs)"
    by (simp add: group_extractions_def keys_fold_group_step)
  have look: "map_of (group_extractions xs) k = expected_group k xs" for k
    by (simp add: group_extractions_def map_of_fold_group_step)
  show ?thesis
    using alist_by_keys [OF distinct_keys_group_extractions, of xs]
    by (simp add: keys look del: map_map)
qed

lemma deduplicate_extractions_eq:
  "deduplicate_extractions xs =
     map (\<lambda>k. build_merged (k, the (expected_group k xs))) (first_seen (map key_of xs))"
  by (simp add: deduplicate_extractions_def group_extractions_eq o_def)

lemma members_hd:
  "k \<in> key_of ` set xs \<Longrightarrow> \<exists>e es. members k xs = e # es \<and> key_of e = k \<and> e \<in> set xs"
proof -
  assume "k \<in> key_of ` set xs"
  then have "members k xs \<noteq> []"
    by (auto simp: members_def filter_empty_conv)
  then obtain e es where m: "members k xs = e # es" by (cases "members k xs") auto
  then have "e \<in> set (members k xs)" by simp
  then have "key_of e = k \<and> e \<in> set xs" by (simp add: members_def)
  with m show ?thesis by blast
qed

lemma key_of_build_merged: "key_of (build_merged (k, g)) = key_of (grp_extraction g)"
  by (simp add: build_merged_def Let_def key_of_def)

lemma find_members:
  "find (\<lambda>e. key_of e = k) xs = (case members k xs of [] \<Rightarrow> None | e # es \<Rightarrow> Some e)"
  by (induction xs) (auto simp: members_def)

lemma keys_deduplicate_extractions:
  "map key_of (deduplicate_extractions xs) = first_seen (map key_of xs)"
proof -
  have "key_of (build_merged (k, the (expected_group k xs))) = k"
    if "k \<in> set (first_seen (map key_of xs))" for k
  proof -
    from that have "k \<in> key_of ` set xs" by (simp add: set_first_seen)
    from members_hd [OF this] show ?thesis
      by (auto simp: key_of_build_merged expected_group_def)
  qed
  then show ?thesis
    by (simp add: deduplicate_extractions_eq o_def map_idI)
qed

lemma attributes_build_merged: "\<exists>d. attributes (build_merged kg) = ADict d \<and> distinct (map fst d)"
  by (simp add: build_merged_def Let_def merge_attributes_distinct distinct_dict_set)

lemma attributes_deduplicate_extractions:
  "m \<in> set (deduplicate_extractions xs) \<Longrightarrow> \<exists>d. attributes m = ADict d \<and> distinct (map fst d)"
  by (auto simp: deduplicate_extractions_def attributes_build_merged)



lemma mention_count_not_variations: "''mention_count'' \<noteq> k @ ''_variations''"
proof
  assume "''mention_count'' = k @ ''_variations''"
  then have "last ''mention_count'' = last (k @ ''_variations'')" by simp
  then show False by simp
qed

text \<open>The \<open>mention_count\<close> entry of a merged entity, by the size of its group.\<close>

lemma mention_count_lookup:
  assumes "m \<in> set (deduplicate_extractions xs)"
  shows "length (members (key_of m) xs) \<ge> 1 \<and>
    (length (members (key_of m) xs) > 1 \<longrightarrow>
       raw_attr m ''mention_count'' = Some (PInt (int (length (members (key_of m) xs))))) \<and>
    (length (members (key_of m) xs) = 1 \<longrightarrow>
       (\<forall>e \<in> set xs. key_of e = key_of m \<longrightarrow>
          raw_attr m ''mention_count'' = raw_attr e ''mention_count''))"
proof -
  from assms obtain k where k: "k \<in> set (first_seen (map key_of xs))"
    and m: "m = build_merged (k, the (expected_group k xs))"
    by (auto simp: deduplicate_extractions_eq)
  from k have kin: "k \<in> key_of ` set xs" by (simp add: set_first_seen)
  from members_hd [OF kin] obtain e es where
    mem: "members k xs = e # es" and ke: "key_of e = k" by blast
  have g: "the (expected_group k xs) =
      \<lparr>grp_extraction = e, grp_count = Suc (length es),
       grp_all_attributes = concat (map contributed (e # es))\<rparr>"
    by (simp add: expected_group_def mem)
  have km: "key_of m = k"
    by (simp add: m key_of_build_merged g ke)
  have many: "raw_attr m ''mention_count'' = Some (PInt (int (Suc (length es))))"
    if "es \<noteq> []"
    using that
    by (simp add: m g build_merged_def Let_def raw_attr_def dict_get_def
        map_of_dict_set dict_set_not_Nil)
  have single: "raw_attr m ''mention_count'' = raw_attr e' ''mention_count''"
    if "es = []" and e': "e' \<in> set xs" "key_of e' = k" for e'
  proof -
    from e' have "e' \<in> set (members k xs)" by (simp add: members_def)
    with mem that have [simp]: "e' = e" by simp
    have "dict_get (merge_attributes (contributed e)) ''mention_count'' =
        map_of (concat (contributed e)) ''mention_count''"
      using merge_attributes_plain_key [of "''mention_count''" "contributed e"]
      by (simp add: mention_count_not_variations)
    also have "\<dots> = raw_attr e ''mention_count''"
      by (cases "attributes e") (auto simp: contributed_def raw_attr_def dict_get_def)
    finally have look: "dict_get (merge_attributes (contributed e)) ''mention_count'' =
        raw_attr e ''mention_count''" .
    have upd: "raw_attr (x\<lparr>attributes := ADict d\<rparr>) a = dict_get d a"
      for x :: extraction and d a
      by (simp add: raw_attr_def)
    have "raw_attr (e\<lparr>attributes := ADict []\<rparr>) ''mention_count'' = raw_attr e ''mention_count''"
      if "merge_attributes (contributed e) = []"
      using look that by (simp add: upd)
    then show ?thesis using that look
      by (simp add: m g build_merged_def Let_def upd)
  qed
  show ?thesis
    using many single by (auto simp: km mem)
qed

text \<open>Deduplication keeps every \<open>mention_count\<close> an integer when the input has it so.\<close>

lemma int_mention_count_raw_attr:
  "int_mention_count e \<longleftrightarrow>
     (case attributes e of
        ADict d \<Rightarrow> raw_attr e ''mention_count'' = None \<or>
                   (\<exists>n. raw_attr e ''mention_count'' = Some (PInt n))
      | ANonDict v \<Rightarrow> \<not> truthy v)"
  by (auto simp: int_mention_count_def raw_attr_def split: attrs.splits option.splits pyval.splits)

lemma int_mention_count_None: "raw_attr e ''mention_count'' = None \<Longrightarrow>
    (\<exists>d. attributes e = ADict d) \<Longrightarrow> int_mention_count e"
  by (auto simp: int_mention_count_raw_attr)

lemma raw_attr_int_mention_count:
  "int_mention_count e \<Longrightarrow>
   raw_attr e ''mention_count'' = None \<or> (\<exists>n. raw_attr e ''mention_count'' = Some (PInt n))"
  by (auto simp: int_mention_count_raw_attr raw_attr_def split: attrs.splits)

lemma int_mention_count_deduplicate_extractions:
  assumes raw: "\<forall>e \<in> set xs. int_mention_count e"
    and m: "m \<in> set (deduplicate_extractions xs)"
  shows "int_mention_count m"
proof -
  from attributes_deduplicate_extractions [OF m] obtain d where d: "attributes m = ADict d"
    by blast
  let ?n = "length (members (key_of m) xs)"
  note rule = mention_count_lookup [OF m]
  have "raw_attr m ''mention_count'' = None \<or>
      (\<exists>n. raw_attr m ''mention_count'' = Some (PInt n))"
  proof (cases "?n > 1")
    case True
    with rule show ?thesis by blast
  next
    case False
    with rule have one: "?n = 1" by linarith
    then obtain e where e: "members (key_of m) xs = [e]"
      by (cases "members (key_of m) xs") auto
    then have "e \<in> set (members (key_of m) xs)" by simp
    then have ex: "e \<in> set xs" and ke: "key_of e = key_of m"
      by (simp_all add: members_def)
    from rule one ex ke have "raw_attr m ''mention_count'' = raw_attr e ''mention_count''"
      by blast
    with raw_attr_int_mention_count [of e] raw ex show ?thesis by simp
  qed
  then show ?thesis
    by (simp add: int_mention_count_raw_attr d)
qed

section \<open>Truncation\<close>

lemma rfind_from_notin: "c \<notin> set xs \<Longrightarrow> rfind_from c xs i best = best"
  by (induction xs arbitrary: i best) auto

lemma rfind_from_append:
  "rfind_from c (xs @ ys) i best = rfind_from c ys (i + int (length xs)) (rfind_from c xs i best)"
  by (induction xs arbitrary: i best) (auto simp: algebra_simps)

lemma rfind_from_in:
  "c \<in> set xs \<Longrightarrow>
   \<exists>p < length xs. rfind_from c xs i best = i + int p \<and> xs ! p = c \<and>
     (\<forall>j. p < j \<and> j < length xs \<longrightarrow> xs ! j \<noteq> c)"
proof (induction xs arbitrary: i best)
  case Nil
  then show ?case by simp
next
  case (Cons x xs)
  show ?case
  proof (cases "c \<in> set xs")
    case True
    from Cons.IH [OF True, of "i + 1" "if x = c then i else best"]
    obtain p where p: "p < length xs"
      "rfind_from c xs (i + 1) (if x = c then i else best) = i + 1 + int p"
      "xs ! p = c" "\<forall>j. p < j \<and> j < length xs \<longrightarrow> xs ! j \<noteq> c"
      by blast
    have "\<forall>j. Suc p < j \<and> j < length (x # xs) \<longrightarrow> (x # xs) ! j \<noteq> c"
    proof (intro allI impI)
      fix j assume j: "Suc p < j \<and> j < length (x # xs)"
      then obtain j' where j': "j = Suc j'" by (cases j) auto
      with j p(4) show "(x # xs) ! j \<noteq> c" by simp
    qed
    with p show ?thesis
      by (intro exI [of _ "Suc p"]) simp
  next
    case False
    with Cons.prems have xc: "x = c" by simp
    have "\<forall>j. 0 < j \<and> j < length (x # xs) \<longrightarrow> (x # xs) ! j \<noteq> c"
    proof (intro allI impI)
      fix j assume j: "0 < j \<and> j < length (x # xs)"
      then obtain j' where j': "j = Suc j'" by (cases j) auto
      with j have "xs ! j' \<in> set xs" by simp
      with False show "(x # xs) ! j \<noteq> c" by (auto simp: j')
    qed
    then show ?thesis using False xc
      by (intro exI [of _ 0]) (simp add: rfind_from_notin)
  qed
qed

lemma py_rfind_notin: "c \<notin> set s \<Longrightarrow> py_rfind s c = - 1"
  by (simp add: py_rfind_def rfind_from_notin)

lemma py_rfind_in:
  "c \<in> set s \<Longrightarrow>
   \<exists>p < length s. py_rfind s c = int p \<and> s ! p = c \<and>
     (\<forall>j. p < j \<and> j < length s \<longrightarrow> s ! j \<noteq> c)"
  using rfind_from_in [of c s 0 "- 1"] by (simp add: py_rfind_def)

lemma chunk_and_extract_long:
  assumes len: "length text > 4000"
  shows "(\<exists>p. 3800 < p \<and> p < 4000 \<and> text ! p = CHR '' '' \<and>
            (\<forall>j. p < j \<and> j < 4000 \<longrightarrow> text ! j \<noteq> CHR '' '') \<and>
            chunk_and_extract text = take p text) \<or>
         ((\<forall>j. 3800 < j \<and> j < 4000 \<longrightarrow> text ! j \<noteq> CHR '' '') \<and>
            chunk_and_extract text = take 4000 text)"
proof -
  let ?s = "take 4000 text"
  have ls: "length ?s = 4000" using len by simp
  have nth: "?s ! j = text ! j" if "j < 4000" for j using that by simp
  show ?thesis
  proof (cases "CHR '' '' \<in> set ?s")
    case False
    then have "\<forall>j < 4000. text ! j \<noteq> CHR '' ''"
      using ls nth by (metis nth_mem)
    moreover have "chunk_and_extract text = take 4000 text"
      using len by (simp add: chunk_and_extract_def Let_def py_rfind_notin [OF False])
    ultimately show ?thesis by simp
  next
    case True
    from py_rfind_in [OF True] obtain p where p: "p < 4000"
      "py_rfind ?s CHR '' '' = int p" "?s ! p = CHR '' ''"
      "\<forall>j. p < j \<and> j < 4000 \<longrightarrow> ?s ! j \<noteq> CHR '' ''"
      unfolding ls by blast
    have after: "\<forall>j. p < j \<and> j < 4000 \<longrightarrow> text ! j \<noteq> CHR '' ''"
      using p(4) nth by simp
    show ?thesis
    proof (cases "3800 < p")
      case True
      have "chunk_and_extract text = take p text"
        using len True by (simp add: chunk_and_extract_def Let_def p(2))
      with True p(1) p(3) after nth [OF p(1)] show ?thesis by auto
    next
      case False
      have "chunk_and_extract text = take 4000 text"
        using len False by (simp add: chunk_and_extract_def Let_def p(2))
      moreover have "\<forall>j. 3800 < j \<and> j < 4000 \<longrightarrow> text ! j \<noteq> CHR '' ''"
        using after False by auto
      ultimately show ?thesis by simp
    qed
  qed
qed

lemma rfind_from_replicate: "a \<noteq> c \<Longrightarrow> rfind_from c (replicate n a) i best = best"
  by (simp add: rfind_from_notin)

section \<open>Sorting\<close>

lemma insort_key_map:
  "insort_key f (g x) (map g xs) = map g (insort_key (\<lambda>y. f (g y)) x xs)"
  by (induction xs) auto

lemma sort_key_map: "sort_key f (map g xs) = map g (sort_key (\<lambda>y. f (g y)) xs)"
  by (induction xs) (auto simp: insort_key_map)

lemma zip_map_self: "zip (map h xs) xs = map (\<lambda>e. (h e, e)) xs"
  by (induction xs) auto

lemma sequence_err_Inr: "sequence_err (map (\<lambda>x. Inr (g x)) xs) = Inr (map g xs)"
  by (induction xs) auto

lemma sort_key_short: "length xs \<le> 1 \<Longrightarrow> rev (sort_key f (rev xs)) = xs"
  by (cases xs) auto

lemma mention_count_key_int:
  "int_mention_count e \<Longrightarrow> mention_count_key e = Inr (PInt (mention_count_of e))"
  by (auto simp: int_mention_count_def mention_count_key_def mention_count_of_def raw_attr_def
      split: attrs.splits option.splits pyval.splits)

lemma sorted_reverse_int:
  "sorted_reverse (map (\<lambda>e. (PInt (m e), e)) items) = Inr (rev (sort_key m (rev items)))"
proof (cases "length items \<le> 1")
  case True
  then show ?thesis
    by (simp add: sorted_reverse_def sort_key_short o_def)
next
  case False
  let ?P = "\<lambda>e. (PInt (m e), e)"
  have num: "list_all (\<lambda>kx. is_num (fst kx)) (map ?P items)"
    by (simp add: list_all_iff is_num_def)
  have "sort_key (\<lambda>kx. num_of (fst kx)) (rev (map ?P items)) =
        sort_key (\<lambda>kx. num_of (fst kx)) (map ?P (rev items))"
    by (simp add: rev_map)
  also have "\<dots> = map ?P (sort_key (\<lambda>e. num_of (fst (?P e))) (rev items))"
    by (rule sort_key_map)
  also have "(\<lambda>e. num_of (fst (?P e))) = m"
    by (simp add: num_of_def)
  finally have "map snd (rev (sort_key (\<lambda>kx. num_of (fst kx)) (rev (map ?P items)))) =
      rev (sort_key m (rev items))"
    by (simp add: rev_map [symmetric] o_def)
  then show ?thesis using False num
    by (simp add: sorted_reverse_def)
qed

lemma sort_by_mention_count_int:
  assumes "\<forall>e \<in> set items. int_mention_count e"
  shows "sort_by_mention_count items = Inr (rev (sort_key mention_count_of (rev items)))"
proof -
  have eq: "map mention_count_key items = map (\<lambda>e. Inr (PInt (mention_count_of e))) items"
    using assms by (simp add: mention_count_key_int)
  show ?thesis
    unfolding sort_by_mention_count_def eq sequence_err_Inr
    by (simp add: zip_map_self sorted_reverse_int)
qed

text \<open>The stable descending sort: descending, and equal keys keep their order.\<close>

lemma descending_rev_sort: "sorted_wrt (\<lambda>a b. a \<ge> b) (map f (rev (sort_key f xs)))"
proof -
  have "sorted (map f (sort_key f xs))" by simp
  then have "sorted_wrt (\<lambda>a b. b \<le> a) (rev (map f (sort_key f xs)))"
    by (simp add: sorted_wrt_rev)
  then show ?thesis by (simp add: rev_map)
qed

lemma stable_rev_sort:
  "filter (\<lambda>e. f e = n) (rev (sort_key f (rev xs))) = filter (\<lambda>e. f e = n) xs"
proof -
  have "filter (\<lambda>e. f e = n) (rev (sort_key f (rev xs))) =
        rev (filter (\<lambda>e. f e = n) (sort_key f (rev xs)))"
    by (simp add: rev_filter)
  also have "\<dots> = rev (filter (\<lambda>e. f e = n) (rev xs))"
    by (simp add: sort_key_stable)
  also have "\<dots> = filter (\<lambda>e. f e = n) xs"
    by (simp add: rev_filter)
  finally show ?thesis .
qed

section \<open>Grouping by class\<close>

lemma map_of_class_step:
  "map_of (class_step e grouped) =
     (map_of grouped)(extraction_class e \<mapsto>
        (case map_of grouped (extraction_class e) of None \<Rightarrow> [] | Some items \<Rightarrow> items) @ [e])"
  by (simp add: class_step_def Let_def map_of_dict_set dict_get_def)

lemma keys_class_step:
  "map fst (class_step e grouped) =
     (if extraction_class e \<in> fst ` set grouped then map fst grouped
      else map fst grouped @ [extraction_class e])"
  by (simp add: class_step_def Let_def keys_dict_set)

lemma key_set_class_step:
  "fst ` set (class_step e grouped) = insert (extraction_class e) (fst ` set grouped)"
  by (simp add: class_step_def Let_def key_set_dict_set)

lemma keys_fold_class_step:
  "map fst (fold class_step xs grouped) =
     map fst grouped @
     filter (\<lambda>k. k \<notin> fst ` set grouped) (first_seen (map extraction_class xs))"
proof (induction xs arbitrary: grouped)
  case Nil
  then show ?case by simp
next
  case (Cons x xs)
  show ?case
  proof (cases "extraction_class x \<in> fst ` set grouped")
    case True
    then have same: "insert (extraction_class x) (fst ` set grouped) = fst ` set grouped"
      by (rule insert_absorb)
    show ?thesis using True
      by (simp add: Cons.IH key_set_class_step same keys_class_step filter_removeAll_in)
  next
    case False
    then show ?thesis
      by (simp add: Cons.IH key_set_class_step keys_class_step filter_insert_removeAll)
  qed
qed

lemma map_of_fold_class_step:
  "map_of (fold class_step xs grouped) c =
     (case map_of grouped c of
        None \<Rightarrow> (if filter (\<lambda>e. extraction_class e = c) xs = [] then None
                 else Some (filter (\<lambda>e. extraction_class e = c) xs))
      | Some items \<Rightarrow> Some (items @ filter (\<lambda>e. extraction_class e = c) xs))"
proof (induction xs arbitrary: grouped)
  case Nil
  then show ?case by (simp split: option.splits)
next
  case (Cons x xs)
  show ?case
    by (simp add: Cons.IH map_of_class_step split: option.splits)
qed

lemma group_by_class_eq:
  "group_by_class xs =
     map (\<lambda>c. (c, filter (\<lambda>e. extraction_class e = c) xs))
       (first_seen (map extraction_class xs))"
proof -
  have keys: "map fst (group_by_class xs) = first_seen (map extraction_class xs)"
    by (simp add: group_by_class_def keys_fold_class_step)
  then have d: "distinct (map fst (group_by_class xs))"
    by (simp add: distinct_first_seen)
  have look: "the (map_of (group_by_class xs) c) = filter (\<lambda>e. extraction_class e = c) xs"
    if "c \<in> set (first_seen (map extraction_class xs))" for c
  proof -
    from that have "c \<in> extraction_class ` set xs" by (simp add: set_first_seen)
    then have "filter (\<lambda>e. extraction_class e = c) xs \<noteq> []"
      by (auto simp: filter_empty_conv)
    then show ?thesis
      by (simp add: group_by_class_def map_of_fold_class_step)
  qed
  have "group_by_class xs =
      map (\<lambda>c. (c, the (map_of (group_by_class xs) c))) (first_seen (map extraction_class xs))"
    using alist_by_keys [OF d] by (simp add: keys)
  also have "\<dots> = map (\<lambda>c. (c, filter (\<lambda>e. extraction_class e = c) xs))
       (first_seen (map extraction_class xs))"
    using look by (intro map_cong) simp_all
  finally show ?thesis .
qed

lemma group_by_class_member:
  "ci \<in> set (group_by_class xs) \<Longrightarrow> snd ci = filter (\<lambda>e. extraction_class e = fst ci) xs"
  by (auto simp: group_by_class_eq)

section \<open>The detailed listing\<close>

lemma category_ranks_small:
  "(c, r) \<in> set (get_category_order tag) \<Longrightarrow> r < 999"
  by (auto simp: get_category_order_def orders_def dict_get_def split: if_splits)

lemma ranked_before_unranked:
  assumes "dict_get (get_category_order tag) c \<noteq> None"
    and "dict_get (get_category_order tag) c' = None"
  shows "rank_of (get_category_order tag) c < rank_of (get_category_order tag) c'"
proof -
  from assms(1) obtain r where r: "map_of (get_category_order tag) c = Some r"
    by (auto simp: dict_get_def)
  then have "(c, r) \<in> set (get_category_order tag)" by (rule map_of_SomeD)
  then have "r < 999" by (rule category_ranks_small)
  then show ?thesis using r assms(2)
    by (simp add: rank_of_def dict_get_def)
qed

lemma detailed_sections_int:
  assumes "\<forall>e \<in> set es. int_mention_count e"
  shows "detailed_sections tag es =
     Inr (map (\<lambda>ci. (fst ci, rev (sort_key mention_count_of (rev (snd ci)))))
            (sort_key (\<lambda>x. rank_of (get_category_order tag) (fst x)) (group_by_class es)))"
proof -
  let ?S = "sort_key (\<lambda>x. rank_of (get_category_order tag) (fst x)) (group_by_class es)"
  have "detailed_section ci = Inr (fst ci, rev (sort_key mention_count_of (rev (snd ci))))"
    if "ci \<in> set ?S" for ci
  proof -
    from that have "ci \<in> set (group_by_class es)" by simp
    then have "snd ci = filter (\<lambda>e. extraction_class e = fst ci) es"
      by (rule group_by_class_member)
    then have "\<forall>e \<in> set (snd ci). int_mention_count e"
      using assms by simp
    then show ?thesis
      by (simp add: detailed_section_def sort_by_mention_count_int)
  qed
  then have eq: "map detailed_section ?S =
      map (\<lambda>ci. Inr (fst ci, rev (sort_key mention_count_of (rev (snd ci))))) ?S"
    by (intro map_cong) simp_all
  show ?thesis
    unfolding detailed_sections_def sorted_categories_def Let_def eq sequence_err_Inr
    by (rule refl)
qed

section \<open>Trimming\<close>

lemma py_strip_split:
  "\<exists>a b. s = a @ py_strip s @ b \<and> list_all py_isspace a \<and> list_all py_isspace b"
proof -
  let ?t = "dropWhile py_isspace s"
  let ?a = "takeWhile py_isspace s"
  let ?b = "rev (takeWhile py_isspace (rev ?t))"
  have "rev (takeWhile py_isspace (rev ?t) @ dropWhile py_isspace (rev ?t)) = rev (rev ?t)"
    by (simp only: takeWhile_dropWhile_id)
  then have "rev (dropWhile py_isspace (rev ?t)) @ ?b = ?t"
    by (simp only: rev_append rev_rev_ident)
  then have t: "?t = py_strip s @ ?b"
    by (simp only: py_strip_def)
  have "s = ?a @ ?t" by simp
  with t have "s = ?a @ py_strip s @ ?b" by simp
  moreover have "list_all py_isspace ?a"
    by (simp add: list_all_iff) (meson set_takeWhileD)
  moreover have "list_all py_isspace ?b"
    by (simp add: list_all_iff) (meson set_takeWhileD)
  ultimately show ?thesis by blast
qed

lemma py_strip_ends:
  assumes "py_strip s \<noteq> []"
  shows "\<not> py_isspace (hd (py_strip s)) \<and> \<not> py_isspace (last (py_strip s))"
proof -
  let ?t = "dropWhile py_isspace s"
  let ?u = "dropWhile py_isspace (rev ?t)"
  from assms have u: "?u \<noteq> []" by (simp add: py_strip_def)
  then have t: "?t \<noteq> []" by (cases "?t = []") simp_all
  have "last (py_strip s) = hd ?u"
    using u by (simp add: py_strip_def last_rev)
  moreover have "\<not> py_isspace (hd ?u)"
    using u by (rule hd_dropWhile)
  moreover have "hd (py_strip s) = last ?u"
    using u by (simp add: py_strip_def hd_rev)
  moreover have "last ?u = last (rev ?t)"
  proof -
    have "last (takeWhile py_isspace (rev ?t) @ ?u) = last (rev ?t)"
      by (simp only: takeWhile_dropWhile_id)
    moreover have "last (takeWhile py_isspace (rev ?t) @ ?u) = last ?u"
      using u by (rule last_appendR)
    ultimately show ?thesis by (metis (no_types))
  qed
  moreover have "last (rev ?t) = hd ?t"
    using t by (simp add: last_rev)
  moreover have "\<not> py_isspace (hd ?t)"
    using t by (rule hd_dropWhile)
  ultimately show ?thesis by simp
qed

section \<open>Representative value of the merger\<close>

text \<open>
  C1. The representative value of a key is meant to be the first non-empty value
  supplied for it (the docstring of \<open>_merge_attributes\<close>: keep first non-empty value).
  The source stores the value of the first dictionary that has the key, whether empty
  or not: merging \<open>[{"a": ""}, {"a": "x"}]\<close> gives \<open>{"a": ""}\<close>, where the first
  non-empty value is \<open>"x"\<close>. The empty value is chosen, and the key is present although
  the first dictionary gave no value for it.
\<close>

theorem merge_attributes_keeps_empty_value:
  "merge_attributes [[(''a'', PStr '''')], [(''a'', PStr ''x'')]] = [(''a'', PStr '''')]"
  by code_simp

section \<open>Variations\<close>

text \<open>
  C9, as the source has it. For a list of attribute maps and a key \<open>k\<close>, let
  \<open>value_set\<close> be the set of the strings (\<open>str\<close>) of the truthy values stored under \<open>k\<close>
  in any of the maps: \<open>None\<close>, the empty string, the number 0 and \<open>False\<close> are passed
  over. When the set has more than one element, the merged dictionary holds under the
  companion key \<open>k_variations\<close> the sorted values joined by a comma and a space;
  otherwise nothing is written there, and the companion key holds only what the input
  maps themselves stored under that name. Permuting the input maps changes neither
  the set nor, where it has more than one element, the variations string.
\<close>

theorem merge_attributes_variations:
  assumes "mset bs = mset as"
  shows "value_set bs k = value_set as k \<and>
    dict_get (merge_attributes as) (k @ ''_variations'') =
      (if card (value_set as k) > 1
       then Some (PStr (py_join '', '' (sorted_list_of_set (value_set as k))))
       else map_of (concat as) (k @ ''_variations'')) \<and>
    (card (value_set as k) > 1 \<longrightarrow>
       dict_get (merge_attributes bs) (k @ ''_variations'') =
       dict_get (merge_attributes as) (k @ ''_variations''))"
  using value_set_mset [OF assms, of k]
  by (simp add: merge_attributes_variations_key)

theorem merge_attributes_variations_witness:
  "mset [[(''a'', PStr ''y'')], [(''a'', PStr ''x''), (''b'', PInt 0)]]
     = mset [[(''a'', PStr ''x''), (''b'', PInt 0)], [(''a'', PStr ''y'')]] \<and>
   card (value_set [[(''a'', PStr ''x''), (''b'', PInt 0)], [(''a'', PStr ''y'')]] ''a'') > 1 \<and>
   dict_get (merge_attributes [[(''a'', PStr ''y'')], [(''a'', PStr ''x''), (''b'', PInt 0)]])
     ''a_variations'' = Some (PStr ''x, y'') \<and>
   dict_get (merge_attributes [[(''a'', PStr ''x''), (''b'', PInt 0)], [(''a'', PStr ''y'')]])
     ''a_variations'' = Some (PStr ''x, y'')"
proof -
  let ?as = "[[(''a'', PStr ''x''), (''b'', PInt 0)], [(''a'', PStr ''y'')]]"
  let ?bs = "[[(''a'', PStr ''y'')], [(''a'', PStr ''x''), (''b'', PInt 0)]]"
  have h: "mset ?bs = mset ?as" by simp
  have vs: "value_set ?as ''a'' = {''x'', ''y''}"
    by (auto simp: value_set_def item_values_def)
  have c: "card (value_set ?as ''a'') > 1"
    by (simp add: vs)
  have s: "sorted_list_of_set {''x'', ''y''} = [''x'', ''y'']"
    by code_simp
  show ?thesis
    using h c merge_attributes_variations [OF h, of "''a''"]
    by (simp add: vs s)
qed

text \<open>
  C9, as stated, fails when one of the distinct values is a number 0 or \<open>False\<close>:
  such a value is a value of the attribute, but the source's test \<open>if value\<close> passes
  over it. The maps \<open>{"a": 0}\<close> and \<open>{"a": 5}\<close> store two distinct values under \<open>a\<close>, and
  the merged dictionary has no \<open>a_variations\<close>.
\<close>

theorem merge_attributes_zero_counterexample:
  "merge_attributes [[(''a'', PInt 0)], [(''a'', PInt 5)]] = [(''a'', PInt 0)] \<and>
   dict_get (merge_attributes [[(''a'', PInt 0)], [(''a'', PInt 5)]]) ''a_variations'' = None \<and>
   py_str (PInt 0) = ''0'' \<and> py_str (PInt 5) = ''5''"
  by code_simp

section \<open>Deduplication\<close>

text \<open>
  C3, as the source has it. The identity of an entity is \<open>key_of\<close>: its class,
  unchanged, paired with its text stripped of surrounding whitespace and then
  lower-cased with \<open>str.lower()\<close>, which is not Unicode case folding. Stripping removes
  a run of whitespace at each end and nothing else, and what is left neither begins
  nor ends with whitespace; lower-casing maps character by character. For every
  entity list the identities of the output are the identities of the input in the
  order of their first occurrence, each exactly once, so the output has as many
  entities as the input has distinct identities; and each output entity has the class
  and the text, as written, of the first input entity with its identity.
\<close>

theorem deduplicate_extractions_identities:
  "key_of e = (extraction_class e, py_lower (py_strip (extraction_text e))) \<and>
   py_lower t = map lower_char t \<and>
   (\<exists>a b. t = a @ py_strip t @ b \<and> list_all py_isspace a \<and> list_all py_isspace b) \<and>
   (py_strip t \<noteq> [] \<longrightarrow>
      \<not> py_isspace (hd (py_strip t)) \<and> \<not> py_isspace (last (py_strip t))) \<and>
   map key_of (deduplicate_extractions xs) = first_seen (map key_of xs) \<and>
   distinct (map key_of (deduplicate_extractions xs)) \<and>
   length (deduplicate_extractions xs) = card (key_of ` set xs) \<and>
   list_all2
     (\<lambda>m k. \<exists>e. find (\<lambda>e. key_of e = k) xs = Some e \<and>
                extraction_class m = extraction_class e \<and>
                extraction_text m = extraction_text e)
     (deduplicate_extractions xs) (first_seen (map key_of xs))"
proof -
  have keys: "map key_of (deduplicate_extractions xs) = first_seen (map key_of xs)"
    by (rule keys_deduplicate_extractions)
  have len: "length (deduplicate_extractions xs) = card (key_of ` set xs)"
    using arg_cong [OF keys, of length] by (simp add: length_first_seen)
  have rep: "\<exists>e. find (\<lambda>e. key_of e = k) xs = Some e \<and>
      extraction_class (build_merged (k, the (expected_group k xs))) = extraction_class e \<and>
      extraction_text (build_merged (k, the (expected_group k xs))) = extraction_text e"
    if "k \<in> set (first_seen (map key_of xs))" for k
  proof -
    from that have "k \<in> key_of ` set xs" by (simp add: set_first_seen)
    from members_hd [OF this] obtain e es where m: "members k xs = e # es" by blast
    then show ?thesis
      by (simp add: find_members expected_group_def build_merged_def Let_def)
  qed
  have all2: "list_all2
     (\<lambda>m k. \<exists>e. find (\<lambda>e. key_of e = k) xs = Some e \<and>
                extraction_class m = extraction_class e \<and>
                extraction_text m = extraction_text e)
     (deduplicate_extractions xs) (first_seen (map key_of xs))"
    unfolding deduplicate_extractions_eq list_all2_map1
    by (rule list_all2_same [THEN iffD2]) (use rep in blast)
  have d: "distinct (map key_of (deduplicate_extractions xs))"
    by (simp add: keys distinct_first_seen)
  have key: "key_of e = (extraction_class e, py_lower (py_strip (extraction_text e)))"
    by (simp add: key_of_def)
  have low: "py_lower t = map lower_char t"
    by (simp add: py_lower_def)
  from key low py_strip_split [of t] py_strip_ends [of t] keys d len all2
  show ?thesis by blast
qed

theorem deduplicate_extractions_identities_witness:
  "py_strip ('' John'' @ [CHR 0xA0]) = ''John'' \<and>
   py_isspace (hd (py_strip ('' John'' @ [CHR 0xA0]))) = False \<and>
   py_isspace (last (py_strip ('' John'' @ [CHR 0xA0]))) = False \<and>
   key_of \<lparr>extraction_class = ''speaker'', extraction_text = '' John'' @ [CHR 0xA0],
     attributes = ADict []\<rparr> = (''speaker'', ''john'') \<and>
   map key_of (deduplicate_extractions
     [\<lparr>extraction_class = ''speaker'', extraction_text = '' John'' @ [CHR 0xA0],
        attributes = ADict []\<rparr>,
      \<lparr>extraction_class = ''place'', extraction_text = CHR 0xC9 # ''cole'',
        attributes = ADict []\<rparr>,
      \<lparr>extraction_class = ''speaker'', extraction_text = ''JOHN'',
        attributes = ADict []\<rparr>,
      \<lparr>extraction_class = ''place'', extraction_text = CHR 0xE9 # ''COLE'',
        attributes = ADict []\<rparr>])
   = [(''speaker'', ''john''), (''place'', CHR 0xE9 # ''cole'')] \<and>
   length (deduplicate_extractions
     [\<lparr>extraction_class = ''speaker'', extraction_text = '' John'' @ [CHR 0xA0],
        attributes = ADict []\<rparr>,
      \<lparr>extraction_class = ''place'', extraction_text = CHR 0xC9 # ''cole'',
        attributes = ADict []\<rparr>,
      \<lparr>extraction_class = ''speaker'', extraction_text = ''JOHN'',
        attributes = ADict []\<rparr>,
      \<lparr>extraction_class = ''place'', extraction_text = CHR 0xE9 # ''COLE'',
        attributes = ADict []\<rparr>]) = 2"
proof -
  let ?t = "'' John'' @ [CHR 0xA0]"
  let ?e = "\<lparr>extraction_class = ''speaker'', extraction_text = ?t, attributes = ADict []\<rparr>"
  let ?xs = "[?e,
      \<lparr>extraction_class = ''place'', extraction_text = CHR 0xC9 # ''cole'',
        attributes = ADict []\<rparr>,
      \<lparr>extraction_class = ''speaker'', extraction_text = ''JOHN'',
        attributes = ADict []\<rparr>,
      \<lparr>extraction_class = ''place'', extraction_text = CHR 0xE9 # ''COLE'',
        attributes = ADict []\<rparr>]"
  note inst = deduplicate_extractions_identities [of ?e ?t ?xs]
  have strip: "py_strip ?t = ''John''"
    by code_simp
  then have ne: "py_strip ?t \<noteq> []"
    by simp
  from inst ne have ends: "\<not> py_isspace (hd (py_strip ?t)) \<and> \<not> py_isspace (last (py_strip ?t))"
    by blast
  have low: "py_lower (py_strip (extraction_text ?e)) = ''john''"
    by code_simp
  have cls: "extraction_class ?e = ''speaker''"
    by simp
  from inst have "key_of ?e = (extraction_class ?e, py_lower (py_strip (extraction_text ?e)))"
    by blast
  then have key: "key_of ?e = (''speaker'', ''john'')"
    by (simp only: low cls)
  have fs: "first_seen (map key_of ?xs) = [(''speaker'', ''john''), (''place'', CHR 0xE9 # ''cole'')]"
    by code_simp
  from inst have "map key_of (deduplicate_extractions ?xs) = first_seen (map key_of ?xs)"
    by blast
  then have keys: "map key_of (deduplicate_extractions ?xs) =
      [(''speaker'', ''john''), (''place'', CHR 0xE9 # ''cole'')]"
    by (simp only: fs)
  from arg_cong [OF keys, of length]
  have len: "length (deduplicate_extractions ?xs) = 2"
    by simp
  from strip ends key keys len show ?thesis
    by simp
qed

text \<open>
  C3, as stated, fails where lower-casing and case folding differ. Take the word
  \<open>Strasse\<close> written with a sharp s (U+00DF) in place of \<open>ss\<close>, and \<open>STRASSE\<close>. They
  have the same case folding, \<open>strasse\<close>, so they are one identity by the claim's rule;
  the source lower-cases the first to itself in small letters, sharp s kept, and the
  second to \<open>strasse\<close>, and returns two entities.
\<close>

theorem case_folding_counterexample:
  "case_fold (py_strip (''Stra'' @ CHR 0xDF # ''e'')) = Some ''strasse'' \<and>
   case_fold (py_strip ''STRASSE'') = Some ''strasse'' \<and>
   deduplicate_extractions
     [\<lparr>extraction_class = ''place'', extraction_text = ''Stra'' @ CHR 0xDF # ''e'',
        attributes = ADict []\<rparr>,
      \<lparr>extraction_class = ''place'', extraction_text = ''STRASSE'',
        attributes = ADict []\<rparr>]
   = [\<lparr>extraction_class = ''place'', extraction_text = ''Stra'' @ CHR 0xDF # ''e'',
        attributes = ADict []\<rparr>,
      \<lparr>extraction_class = ''place'', extraction_text = ''STRASSE'',
        attributes = ADict []\<rparr>]"
  by code_simp


text \<open>
  C4, as the source has it. A merged entity whose group has two or more raw entities
  carries \<open>mention_count\<close>, equal to the number of raw entities of the group. A merged
  entity whose group has exactly one raw entity has under \<open>mention_count\<close> whatever that
  raw entity's own attribute map has there: nothing when the raw attributes have no
  such key, and the raw value otherwise. Every output entity has a group of at least
  one.
\<close>

theorem mention_count_rule:
  assumes "m \<in> set (deduplicate_extractions xs)"
  shows "length (members (key_of m) xs) \<ge> 1 \<and>
    (length (members (key_of m) xs) > 1 \<longrightarrow>
       raw_attr m ''mention_count'' = Some (PInt (int (length (members (key_of m) xs))))) \<and>
    (length (members (key_of m) xs) = 1 \<longrightarrow>
       (\<forall>e \<in> set xs. key_of e = key_of m \<longrightarrow>
          raw_attr m ''mention_count'' = raw_attr e ''mention_count''))"
  using assms by (rule mention_count_lookup)

theorem mention_count_rule_witness:
  "\<lparr>extraction_class = ''speaker'', extraction_text = ''John'',
     attributes = ADict [(''role'', PStr ''chair''), (''mention_count'', PInt 2)]\<rparr>
   \<in> set (deduplicate_extractions
       [\<lparr>extraction_class = ''speaker'', extraction_text = ''John'',
          attributes = ADict [(''role'', PStr ''chair'')]\<rparr>,
        \<lparr>extraction_class = ''speaker'', extraction_text = '' john '',
          attributes = ANonDict PNone\<rparr>,
        \<lparr>extraction_class = ''decision'', extraction_text = ''Approve budget'',
          attributes = ADict [(''owner'', PStr ''Amy'')]\<rparr>]) \<and>
   \<lparr>extraction_class = ''decision'', extraction_text = ''Approve budget'',
     attributes = ADict [(''owner'', PStr ''Amy'')]\<rparr>
   \<in> set (deduplicate_extractions
       [\<lparr>extraction_class = ''speaker'', extraction_text = ''John'',
          attributes = ADict [(''role'', PStr ''chair'')]\<rparr>,
        \<lparr>extraction_class = ''speaker'', extraction_text = '' john '',
          attributes = ANonDict PNone\<rparr>,
        \<lparr>extraction_class = ''decision'', extraction_text = ''Approve budget'',
          attributes = ADict [(''owner'', PStr ''Amy'')]\<rparr>]) \<and>
   length (members (''speaker'', ''john'')
       [\<lparr>extraction_class = ''speaker'', extraction_text = ''John'',
          attributes = ADict [(''role'', PStr ''chair'')]\<rparr>,
        \<lparr>extraction_class = ''speaker'', extraction_text = '' john '',
          attributes = ANonDict PNone\<rparr>,
        \<lparr>extraction_class = ''decision'', extraction_text = ''Approve budget'',
          attributes = ADict [(''owner'', PStr ''Amy'')]\<rparr>]) = 2 \<and>
   length (members (''decision'', ''approve budget'')
       [\<lparr>extraction_class = ''speaker'', extraction_text = ''John'',
          attributes = ADict [(''role'', PStr ''chair'')]\<rparr>,
        \<lparr>extraction_class = ''speaker'', extraction_text = '' john '',
          attributes = ANonDict PNone\<rparr>,
        \<lparr>extraction_class = ''decision'', extraction_text = ''Approve budget'',
          attributes = ADict [(''owner'', PStr ''Amy'')]\<rparr>]) = 1 \<and>
   raw_attr \<lparr>extraction_class = ''speaker'', extraction_text = ''John'',
     attributes = ADict [(''role'', PStr ''chair''), (''mention_count'', PInt 2)]\<rparr>
     ''mention_count'' = Some (PInt 2) \<and>
   raw_attr \<lparr>extraction_class = ''decision'', extraction_text = ''Approve budget'',
     attributes = ADict [(''owner'', PStr ''Amy'')]\<rparr> ''mention_count'' = None"
proof -
  let ?john = "\<lparr>extraction_class = ''speaker'', extraction_text = ''John'',
     attributes = ADict [(''role'', PStr ''chair'')]\<rparr>"
  let ?john2 = "\<lparr>extraction_class = ''speaker'', extraction_text = '' john '',
     attributes = ANonDict PNone\<rparr>"
  let ?budget = "\<lparr>extraction_class = ''decision'', extraction_text = ''Approve budget'',
     attributes = ADict [(''owner'', PStr ''Amy'')]\<rparr>"
  let ?merged = "\<lparr>extraction_class = ''speaker'', extraction_text = ''John'',
     attributes = ADict [(''role'', PStr ''chair''), (''mention_count'', PInt 2)]\<rparr>"
  let ?xs = "[?john, ?john2, ?budget]"
  have out: "deduplicate_extractions ?xs = [?merged, ?budget]"
    by code_simp
  have k1: "key_of ?merged = (''speaker'', ''john'')"
    by code_simp
  have k2: "key_of ?budget = (''decision'', ''approve budget'')"
    by code_simp
  have n1: "length (members (''speaker'', ''john'') ?xs) = 2"
    by code_simp
  have n2: "length (members (''decision'', ''approve budget'') ?xs) = 1"
    by code_simp
  have in1: "?merged \<in> set (deduplicate_extractions ?xs)"
    by (simp add: out)
  have in2: "?budget \<in> set (deduplicate_extractions ?xs)"
    by (simp add: out)
  from mention_count_rule [OF in1]
  have r1: "raw_attr ?merged ''mention_count'' = Some (PInt 2)"
    unfolding k1 n1 by simp
  from mention_count_rule [OF in2]
  have r2: "\<forall>e \<in> set ?xs. key_of e = (''decision'', ''approve budget'') \<longrightarrow>
      raw_attr ?budget ''mention_count'' = raw_attr e ''mention_count''"
    unfolding k2 n2 by simp
  have r3: "raw_attr ?budget ''mention_count'' = None"
    by (simp add: raw_attr_def dict_get_def)
  from in1 in2 n1 n2 r1 r3 show ?thesis
    by blast
qed

text \<open>
  C4, as stated, fails on an entity that arrives with a \<open>mention_count\<close> attribute of
  its own: alone in its group, it keeps the key.
\<close>

theorem mention_count_single_counterexample:
  "deduplicate_extractions
     [\<lparr>extraction_class = ''speaker'', extraction_text = ''John'',
        attributes = ADict [(''mention_count'', PInt 5)]\<rparr>]
   = [\<lparr>extraction_class = ''speaker'', extraction_text = ''John'',
        attributes = ADict [(''mention_count'', PInt 5)]\<rparr>] \<and>
   length (members
     (key_of \<lparr>extraction_class = ''speaker'', extraction_text = ''John'',
        attributes = ADict [(''mention_count'', PInt 5)]\<rparr>)
     [\<lparr>extraction_class = ''speaker'', extraction_text = ''John'',
        attributes = ADict [(''mention_count'', PInt 5)]\<rparr>]) = 1 \<and>
   raw_attr \<lparr>extraction_class = ''speaker'', extraction_text = ''John'',
        attributes = ADict [(''mention_count'', PInt 5)]\<rparr> ''mention_count''
     = Some (PInt 5)"
  by code_simp

text \<open>
  C10. Every entity returned by the deduplication has a dictionary as its attributes.
  The entry of \<open>grouped\<close> for an identity holds the first entity with that identity,
  the number of all entities with that identity, and the attribute maps contributed by
  them in order; an entity whose attributes are not a dictionary, or are the empty
  dictionary, contributes none and is counted all the same.
\<close>

theorem attributes_always_dict:
  "(\<forall>m \<in> set (deduplicate_extractions xs). \<exists>d. attributes m = ADict d) \<and>
   dict_get (group_extractions xs) k = expected_group k xs \<and>
   (attributes e = ANonDict v \<or> attributes e = ADict [] \<longrightarrow>
      contributed e = [] \<and>
      dict_get (group_extractions (xs @ [e])) (key_of e) =
        Some (case dict_get (group_extractions xs) (key_of e) of
                None \<Rightarrow> \<lparr>grp_extraction = e, grp_count = 1, grp_all_attributes = []\<rparr>
              | Some g \<Rightarrow> g\<lparr>grp_count := grp_count g + 1\<rparr>))"
proof -
  have 1: "\<forall>m \<in> set (deduplicate_extractions xs). \<exists>d. attributes m = ADict d"
    using attributes_deduplicate_extractions by blast
  have 2: "dict_get (group_extractions xs) k = expected_group k xs"
    by (simp add: dict_get_def group_extractions_def map_of_fold_group_step)
  have 3: "contributed e = [] \<and>
      dict_get (group_extractions (xs @ [e])) (key_of e) =
        Some (case dict_get (group_extractions xs) (key_of e) of
                None \<Rightarrow> \<lparr>grp_extraction = e, grp_count = 1, grp_all_attributes = []\<rparr>
              | Some g \<Rightarrow> g\<lparr>grp_count := grp_count g + 1\<rparr>)"
    if "attributes e = ANonDict v \<or> attributes e = ADict []"
  proof -
    from that have c: "contributed e = []"
      by (auto simp: contributed_def)
    show ?thesis
      by (simp add: c dict_get_def group_extractions_def map_of_group_step Let_def
          split: option.splits)
  qed
  from 1 2 3 show ?thesis by blast
qed

theorem attributes_always_dict_witness:
  "\<lparr>extraction_class = ''speaker'', extraction_text = ''John'',
     attributes = ADict [(''mention_count'', PInt 2)]\<rparr>
   \<in> set (deduplicate_extractions
       [\<lparr>extraction_class = ''speaker'', extraction_text = ''John'',
          attributes = ANonDict PNone\<rparr>,
        \<lparr>extraction_class = ''speaker'', extraction_text = ''john'',
          attributes = ADict []\<rparr>]) \<and>
   attributes \<lparr>extraction_class = ''speaker'', extraction_text = ''john'',
          attributes = ADict []\<rparr> = ADict [] \<and>
   dict_get (group_extractions
       ([\<lparr>extraction_class = ''speaker'', extraction_text = ''John'',
          attributes = ANonDict PNone\<rparr>] @
        [\<lparr>extraction_class = ''speaker'', extraction_text = ''john'',
          attributes = ADict []\<rparr>])) (''speaker'', ''john'')
   = Some \<lparr>grp_extraction = \<lparr>extraction_class = ''speaker'', extraction_text = ''John'',
              attributes = ANonDict PNone\<rparr>,
           grp_count = 2, grp_all_attributes = []\<rparr>"
proof -
  let ?a = "\<lparr>extraction_class = ''speaker'', extraction_text = ''John'',
          attributes = ANonDict PNone\<rparr>"
  let ?b = "\<lparr>extraction_class = ''speaker'', extraction_text = ''john'',
          attributes = ADict []\<rparr>"
  have out: "deduplicate_extractions [?a, ?b] =
      [\<lparr>extraction_class = ''speaker'', extraction_text = ''John'',
         attributes = ADict [(''mention_count'', PInt 2)]\<rparr>]"
    by code_simp
  have kb: "key_of ?b = (''speaker'', ''john'')"
    by code_simp
  have g: "dict_get (group_extractions [?a]) (''speaker'', ''john'') =
      Some \<lparr>grp_extraction = ?a, grp_count = 1, grp_all_attributes = []\<rparr>"
    by code_simp
  have h: "attributes ?b = ANonDict PNone \<or> attributes ?b = ADict []"
    by simp
  from h attributes_always_dict [of "[?a]" "(''speaker'', ''john'')" ?b PNone]
  show ?thesis
    by (simp add: out kb g)
qed

text \<open>
  C5, as the source has it. A text of at most 8000 characters, the empty text
  included, is returned unchanged. A longer text is cut to a prefix of at most 4000
  characters: when the last space character (U+0020; tabs and line breaks are not
  looked for) among the first 4000 characters stands at an index greater than 3800,
  the result is the text before that space; otherwise, and so when no space stands at
  the indices 3801 to 3999, the result is the first 4000 characters exactly.
\<close>

theorem extract_insights_text_policy:
  "(length text \<le> 8000 \<longrightarrow> extract_insights_text text = text) \<and>
   (length text > 8000 \<longrightarrow>
      (\<exists>p. 3800 < p \<and> p < 4000 \<and> text ! p = CHR '' '' \<and>
            (\<forall>j. p < j \<and> j < 4000 \<longrightarrow> text ! j \<noteq> CHR '' '') \<and>
            extract_insights_text text = take p text) \<or>
      ((\<forall>j. 3800 < j \<and> j < 4000 \<longrightarrow> text ! j \<noteq> CHR '' '') \<and>
            extract_insights_text text = take 4000 text))"
proof (intro conjI impI)
  assume "length text \<le> 8000"
  then show "extract_insights_text text = text"
    by (simp add: extract_insights_text_def)
next
  assume long: "length text > 8000"
  then have "length text > 4000" by simp
  from chunk_and_extract_long [OF this] long
  show "(\<exists>p. 3800 < p \<and> p < 4000 \<and> text ! p = CHR '' '' \<and>
            (\<forall>j. p < j \<and> j < 4000 \<longrightarrow> text ! j \<noteq> CHR '' '') \<and>
            extract_insights_text text = take p text) \<or>
      ((\<forall>j. 3800 < j \<and> j < 4000 \<longrightarrow> text ! j \<noteq> CHR '' '') \<and>
            extract_insights_text text = take 4000 text)"
    by (simp add: extract_insights_text_def)
qed

theorem extract_insights_text_policy_witness:
  "length ''a short text'' \<le> 8000 \<and>
   extract_insights_text ''a short text'' = ''a short text'' \<and>
   length (replicate 3900 CHR ''a'' @ CHR '' '' # replicate 6099 CHR ''b'') > 8000 \<and>
   extract_insights_text (replicate 3900 CHR ''a'' @ CHR '' '' # replicate 6099 CHR ''b'')
     = replicate 3900 CHR ''a''"
proof -
  let ?t = "replicate 3900 CHR ''a'' @ CHR '' '' # replicate 6099 CHR ''b''"
  have short: "length ''a short text'' \<le> 8000" by simp
  have long: "length ?t > 8000" by simp
  have sp: "?t ! 3900 = CHR '' ''"
    by (simp add: nth_append)
  have only: "p = 3900" if "?t ! p = CHR '' ''" and "p < 4000" for p
    using that by (simp add: nth_append nth_Cons' split: if_splits)
  from extract_insights_text_policy [of "''a short text''"] short
  have 1: "extract_insights_text ''a short text'' = ''a short text''"
    by blast
  from extract_insights_text_policy [of ?t] long
  have "(\<exists>p. 3800 < p \<and> p < 4000 \<and> ?t ! p = CHR '' '' \<and>
            (\<forall>j. p < j \<and> j < 4000 \<longrightarrow> ?t ! j \<noteq> CHR '' '') \<and>
            extract_insights_text ?t = take p ?t) \<or>
      ((\<forall>j. 3800 < j \<and> j < 4000 \<longrightarrow> ?t ! j \<noteq> CHR '' '') \<and>
            extract_insights_text ?t = take 4000 ?t)"
    by blast
  then have 2: "extract_insights_text ?t = replicate 3900 CHR ''a''"
  proof
    assume "\<exists>p. 3800 < p \<and> p < 4000 \<and> ?t ! p = CHR '' '' \<and>
            (\<forall>j. p < j \<and> j < 4000 \<longrightarrow> ?t ! j \<noteq> CHR '' '') \<and>
            extract_insights_text ?t = take p ?t"
    then obtain p where p: "?t ! p = CHR '' ''" "p < 4000"
      "extract_insights_text ?t = take p ?t"
      by blast
    from only [OF p(1) p(2)] p(3) show ?thesis by simp
  next
    assume "(\<forall>j. 3800 < j \<and> j < 4000 \<longrightarrow> ?t ! j \<noteq> CHR '' '') \<and>
            extract_insights_text ?t = take 4000 ?t"
    then have "?t ! 3900 \<noteq> CHR '' ''" by simp
    with sp show ?thesis by simp
  qed
  from short long 1 2 show ?thesis by blast
qed

text \<open>
  C5, as stated, fails twice. A space at index 3800 is one of the last 200 characters
  before position 4000, and the text is still cut hard at 4000, inside a word. A tab
  at index 3900 is whitespace within the last 200 characters, and the text is cut hard
  at 4000 as well, since only spaces are looked for.
\<close>

theorem extract_insights_text_counterexample:
  "extract_insights_text (replicate 3800 CHR ''a'' @ CHR '' '' # replicate 4200 CHR ''b'')
     = replicate 3800 CHR ''a'' @ CHR '' '' # replicate 199 CHR ''b'' \<and>
   extract_insights_text (replicate 3900 CHR ''a'' @ CHR 0x09 # replicate 4200 CHR ''b'')
     = replicate 3900 CHR ''a'' @ CHR 0x09 # replicate 99 CHR ''b''"
proof -
  have 1: "py_rfind (replicate 3800 CHR ''a'' @ CHR '' '' # replicate 199 CHR ''b'') CHR '' ''
      = 3800"
    by (simp add: py_rfind_def rfind_from_append rfind_from_replicate)
  have 2: "py_rfind (replicate 3900 CHR ''a'' @ CHR 0x09 # replicate 99 CHR ''b'') CHR '' ''
      = - 1"
    by (simp add: py_rfind_def rfind_from_append rfind_from_replicate)
  show ?thesis
    by (simp add: extract_insights_text_def chunk_and_extract_def Let_def 1 2)
qed

section \<open>Registry lookups\<close>





section \<open>Empty input\<close>

lemma str_nat_0: "str_nat 0 = ''0''"
  by (simp add: str_nat.simps digit_char_def)

text \<open>
  C7. For the empty entity list, every document type and every classification, the
  executive summary is the classification paragraph, the paragraph of the document
  type with every count \<open>0\<close>, and the closing paragraph with \<open>0\<close> entities in \<open>0\<close>
  categories; every class count is zero; the summary of the analyze route is the
  message that no significant insights were extracted; the key insights are the empty
  list and so is the detailed listing, under any tag. None of them is an error.
\<close>

theorem empty_input_report:
  "generate_executive_summary fmt_percent [] doc_type classification =
     [''This document has been classified as a <b>'' @ py_upper (doc_value doc_type)
        @ ''</b> with '' @ fmt_percent (confidence classification) @ '' confidence. ''
        @ reasoning classification,
      (case doc_type of
         STORY \<Rightarrow> ''The narrative features 0 main character(s) and explores 0 central theme(s). The story presents a compelling narrative with well-defined characters and meaningful themes.''
       | MEETING \<Rightarrow> ''The meeting involved 0 participant(s) and resulted in 0 key decision(s) with 0 action item(s) identified for follow-up.''
       | RESEARCH \<Rightarrow> ''This research paper presents 0 significant finding(s). The study employs rigorous methodology and contributes valuable insights to the field.''
       | TECHNICAL \<Rightarrow> ''The technical documentation covers 0 component(s) and 0 function(s), providing comprehensive guidance for implementation and usage.''
       | LEGAL \<Rightarrow> ''This legal document involves 0 party/parties with 0 defined obligation(s). The document establishes clear terms and responsibilities for all parties involved.''
       | GENERAL \<Rightarrow> ''The document contains 0 key entities and insights. Analysis reveals important information across multiple categories.''),
      ''In total, 0 unique entities were identified across 0 categories, providing a comprehensive understanding of the document'' @ [CHR 0x27] @ ''s content and context.''] \<and>
   count_class (group_by_class []) cls = 0 \<and>
   generate_summary [] doc_type = ''No significant insights extracted from the document.'' \<and>
   generate_key_insights (group_by_class []) = Inr [] \<and>
   detailed_sections tag [] = Inr []"
proof -
  have g: "group_by_class [] = []"
    by (simp add: group_by_class_def)
  have 1: "count_class [] c = 0" for c
    by (simp add: count_class_def dict_get_def)
  have 2: "generate_summary [] doc_type = ''No significant insights extracted from the document.''"
    by (simp add: generate_summary_def)
  have 3: "generate_key_insights [] = Inr []"
    by (simp add: generate_key_insights_def)
  have 4: "detailed_sections tag [] = Inr []"
    by (simp add: detailed_sections_def sorted_categories_def g)
  have 5: "type_paragraph doc_type [] [] =
      (case doc_type of
         STORY \<Rightarrow> ''The narrative features 0 main character(s) and explores 0 central theme(s). The story presents a compelling narrative with well-defined characters and meaningful themes.''
       | MEETING \<Rightarrow> ''The meeting involved 0 participant(s) and resulted in 0 key decision(s) with 0 action item(s) identified for follow-up.''
       | RESEARCH \<Rightarrow> ''This research paper presents 0 significant finding(s). The study employs rigorous methodology and contributes valuable insights to the field.''
       | TECHNICAL \<Rightarrow> ''The technical documentation covers 0 component(s) and 0 function(s), providing comprehensive guidance for implementation and usage.''
       | LEGAL \<Rightarrow> ''This legal document involves 0 party/parties with 0 defined obligation(s). The document establishes clear terms and responsibilities for all parties involved.''
       | GENERAL \<Rightarrow> ''The document contains 0 key entities and insights. Analysis reveals important information across multiple categories.'')"
    by (cases doc_type) (simp_all add: type_paragraph_def 1 str_nat_0)
  have 6: "generate_executive_summary fmt_percent [] doc_type classification =
     [''This document has been classified as a <b>'' @ py_upper (doc_value doc_type)
        @ ''</b> with '' @ fmt_percent (confidence classification) @ '' confidence. ''
        @ reasoning classification,
      type_paragraph doc_type [] [],
      ''In total, 0 unique entities were identified across 0 categories, providing a comprehensive understanding of the document'' @ [CHR 0x27] @ ''s content and context.'']"
    by (simp add: generate_executive_summary_def g str_nat_0)
  show ?thesis
    unfolding g 6 5 using 1 2 3 4 by simp
qed

text \<open>
  C8, as the source has it. Take an entity list in which every \<open>mention_count\<close>
  attribute, where present, is an integer (the deduplication of a list with that
  property is such a list), and any tag. The detailed listing is then produced, and:
  the classes appear in ascending rank, where a class that the priority map of the tag
  does not name has rank 999 and so follows every class the map names;
  classes of equal rank appear in the order in which they are first met in the list;
  each section holds exactly the entities of its class, in descending order of mention
  count, an entity without the attribute counting as 1, and entities of equal mention
  count keep their original order.
\<close>

theorem detailed_sections_order:
  assumes "\<forall>e \<in> set es. int_mention_count e"
  shows "\<exists>secs. detailed_sections tag es = Inr secs \<and>
    sorted (map (rank_of (get_category_order tag)) (map fst secs)) \<and>
    (\<forall>r. filter (\<lambda>c. rank_of (get_category_order tag) c = r) (map fst secs) =
         filter (\<lambda>c. rank_of (get_category_order tag) c = r)
           (first_seen (map extraction_class es))) \<and>
    (\<forall>c c'. dict_get (get_category_order tag) c \<noteq> None \<and>
            dict_get (get_category_order tag) c' = None \<longrightarrow>
            rank_of (get_category_order tag) c < rank_of (get_category_order tag) c') \<and>
    (\<forall>ci \<in> set secs.
       mset (snd ci) = mset (filter (\<lambda>e. extraction_class e = fst ci) es) \<and>
       sorted_wrt (\<lambda>a b. a \<ge> b) (map mention_count_of (snd ci)) \<and>
       (\<forall>n. filter (\<lambda>e. mention_count_of e = n) (snd ci) =
            filter (\<lambda>e. mention_count_of e = n)
              (filter (\<lambda>e. extraction_class e = fst ci) es)))"
proof -
  let ?rank = "rank_of (get_category_order tag)"
  let ?G = "group_by_class es"
  let ?S = "sort_key (\<lambda>x. ?rank (fst x)) ?G"
  let ?srt = "\<lambda>items. rev (sort_key mention_count_of (rev items))"
  let ?secs = "map (\<lambda>ci. (fst ci, ?srt (snd ci))) ?S"
  have res: "detailed_sections tag es = Inr ?secs"
    by (rule detailed_sections_int [OF assms])
  have classes: "map fst ?secs = map fst ?S"
    by (simp add: o_def)
  have "sorted (map (\<lambda>x. ?rank (fst x)) ?S)"
    by (rule sorted_sort_key)
  then have asc: "sorted (map ?rank (map fst ?secs))"
    by (simp add: classes o_def)
  have ties: "filter (\<lambda>c. ?rank c = r) (map fst ?secs) =
      filter (\<lambda>c. ?rank c = r) (first_seen (map extraction_class es))" for r
  proof -
    have "filter (\<lambda>c. ?rank c = r) (map fst ?S) =
        map fst (filter (\<lambda>x. ?rank (fst x) = r) ?S)"
      by (simp add: filter_map o_def)
    also have "\<dots> = map fst (filter (\<lambda>x. ?rank (fst x) = r) ?G)"
      by (simp add: sort_key_stable)
    also have "\<dots> = filter (\<lambda>c. ?rank c = r) (map fst ?G)"
      by (simp add: filter_map o_def)
    also have "map fst ?G = first_seen (map extraction_class es)"
      by (simp add: group_by_class_eq o_def)
    finally show ?thesis by (simp only: classes)
  qed
  have unranked: "?rank c < ?rank c'"
    if "dict_get (get_category_order tag) c \<noteq> None \<and>
        dict_get (get_category_order tag) c' = None" for c c'
    using that ranked_before_unranked by blast
  have within: "mset (snd ci) = mset (filter (\<lambda>e. extraction_class e = fst ci) es) \<and>
       sorted_wrt (\<lambda>a b. a \<ge> b) (map mention_count_of (snd ci)) \<and>
       (\<forall>n. filter (\<lambda>e. mention_count_of e = n) (snd ci) =
            filter (\<lambda>e. mention_count_of e = n)
              (filter (\<lambda>e. extraction_class e = fst ci) es))"
    if "ci \<in> set ?secs" for ci
  proof -
    from that obtain gi where gi: "gi \<in> set ?S" "ci = (fst gi, ?srt (snd gi))"
      by auto
    from gi(1) have "gi \<in> set ?G" by simp
    then have items: "snd gi = filter (\<lambda>e. extraction_class e = fst gi) es"
      by (rule group_by_class_member)
    have 1: "mset (?srt (snd gi)) = mset (snd gi)"
      by simp
    have 2: "sorted_wrt (\<lambda>a b. a \<ge> b) (map mention_count_of (?srt (snd gi)))"
      by (rule descending_rev_sort)
    have 3: "filter (\<lambda>e. mention_count_of e = n) (?srt (snd gi)) =
        filter (\<lambda>e. mention_count_of e = n) (snd gi)" for n
      by (rule stable_rev_sort)
    from 1 2 3 show ?thesis
      unfolding gi(2) fst_conv snd_conv items [symmetric] by blast
  qed
  from res asc ties unranked within show ?thesis
    by blast
qed

theorem detailed_sections_order_witness:
  "int_mention_count \<lparr>extraction_class = ''decision'', extraction_text = ''Approve budget'',
      attributes = ADict []\<rparr> \<and>
   int_mention_count \<lparr>extraction_class = ''speaker'', extraction_text = ''Amy'',
      attributes = ADict [(''role'', PStr ''chair'')]\<rparr> \<and>
   int_mention_count \<lparr>extraction_class = ''speaker'', extraction_text = ''John'',
      attributes = ADict [(''mention_count'', PInt 2)]\<rparr> \<and>
   detailed_sections ''meeting''
     [\<lparr>extraction_class = ''decision'', extraction_text = ''Approve budget'',
        attributes = ADict []\<rparr>,
      \<lparr>extraction_class = ''speaker'', extraction_text = ''Amy'',
        attributes = ADict [(''role'', PStr ''chair'')]\<rparr>,
      \<lparr>extraction_class = ''speaker'', extraction_text = ''John'',
        attributes = ADict [(''mention_count'', PInt 2)]\<rparr>]
   = Inr [(''speaker'',
           [\<lparr>extraction_class = ''speaker'', extraction_text = ''John'',
              attributes = ADict [(''mention_count'', PInt 2)]\<rparr>,
            \<lparr>extraction_class = ''speaker'', extraction_text = ''Amy'',
              attributes = ADict [(''role'', PStr ''chair'')]\<rparr>]),
          (''decision'',
           [\<lparr>extraction_class = ''decision'', extraction_text = ''Approve budget'',
              attributes = ADict []\<rparr>])] \<and>
   sorted (map (rank_of (get_category_order ''meeting'')) [''speaker'', ''decision''])"
proof -
  let ?es = "[\<lparr>extraction_class = ''decision'', extraction_text = ''Approve budget'',
                 attributes = ADict []\<rparr>,
               \<lparr>extraction_class = ''speaker'', extraction_text = ''Amy'',
                 attributes = ADict [(''role'', PStr ''chair'')]\<rparr>,
               \<lparr>extraction_class = ''speaker'', extraction_text = ''John'',
                 attributes = ADict [(''mention_count'', PInt 2)]\<rparr>]"
  have h: "\<forall>e \<in> set ?es. int_mention_count e"
    by (simp add: int_mention_count_def dict_get_def)
  have ev: "detailed_sections ''meeting'' ?es
   = Inr [(''speaker'',
           [\<lparr>extraction_class = ''speaker'', extraction_text = ''John'',
              attributes = ADict [(''mention_count'', PInt 2)]\<rparr>,
            \<lparr>extraction_class = ''speaker'', extraction_text = ''Amy'',
              attributes = ADict [(''role'', PStr ''chair'')]\<rparr>]),
          (''decision'',
           [\<lparr>extraction_class = ''decision'', extraction_text = ''Approve budget'',
              attributes = ADict []\<rparr>])]"
    by code_simp
  from detailed_sections_order [OF h, of "''meeting''"]
  have "sorted (map (rank_of (get_category_order ''meeting'')) [''speaker'', ''decision''])"
    unfolding ev by simp
  with h ev show ?thesis by simp
qed

text \<open>
  C8, as stated, fails on a merged entity list in which a \<open>mention_count\<close> is not an
  integer: an entity that arrives with the attribute \<open>mention_count = "x"\<close> keeps it
  through the deduplication, and sorting it against an entity without the attribute
  compares a string with the number 1, which raises \<open>TypeError\<close>; no listing is
  produced.
\<close>

theorem detailed_sections_counterexample:
  "detailed_sections ''meeting''
     (deduplicate_extractions
        [\<lparr>extraction_class = ''speaker'', extraction_text = ''Amy'',
           attributes = ADict [(''mention_count'', PStr ''x'')]\<rparr>,
         \<lparr>extraction_class = ''speaker'', extraction_text = ''John'',
           attributes = ADict []\<rparr>])
   = Inl TypeError"
  by code_simp

end
